theory Spec2Isabelle
  imports Main "HOL-Library.AList"
begin

section \<open>JavaScript strings\<close>

text \<open>
  A JavaScript string is a sequence of UTF-16 code units; \<open>length\<close>, \<open>slice\<close>,
  \<open>startsWith\<close>, \<open>split\<close> and \<open>trim\<close> all work on code units. \<open>str\<close> writes an
  ASCII literal as such a sequence.
\<close>

type_synonym jsstring = "nat list"

definition str :: "string \<Rightarrow> jsstring" where
  "str s = map of_char s"

definition startsWith :: "jsstring \<Rightarrow> jsstring \<Rightarrow> bool" where
  "startsWith s searchString = (take (length searchString) s = searchString)"

text \<open>\<open>s.slice(start)\<close> for a start index that is not negative.\<close>

definition slice :: "nat \<Rightarrow> jsstring \<Rightarrow> jsstring" where
  "slice start s = drop start s"

text \<open>The code units \<open>trim\<close> removes: ECMAScript's WhiteSpace and LineTerminator.\<close>

definition isWhiteSpace :: "nat \<Rightarrow> bool" where
  "isWhiteSpace c \<longleftrightarrow>
     c \<in> {0x09, 0x0A, 0x0B, 0x0C, 0x0D, 0x20, 0xA0, 0x1680, 0x2028, 0x2029, 0x202F, 0x205F,
          0x3000, 0xFEFF} \<or> (0x2000 \<le> c \<and> c \<le> 0x200A)"

definition trim :: "jsstring \<Rightarrow> jsstring" where
  "trim s = rev (dropWhile isWhiteSpace (rev (dropWhile isWhiteSpace s)))"

text \<open>\<open>s.split(sep)\<close> for a separator of one code unit: never the empty list.\<close>

fun split :: "nat \<Rightarrow> jsstring \<Rightarrow> jsstring list" where
  "split sep [] = [[]]"
| "split sep (c # cs) =
     (if c = sep then [] # split sep cs
      else (case split sep cs of l # ls \<Rightarrow> (c # l) # ls | [] \<Rightarrow> [[c]]))"

definition join :: "jsstring \<Rightarrow> jsstring list \<Rightarrow> jsstring" where
  "join sep xs = concat (case xs of [] \<Rightarrow> [] | x # rest \<Rightarrow> x # map (\<lambda>y. sep @ y) rest)"

section \<open>JSON.parse\<close>

text \<open>
  \<open>JSON.parse\<close> after the JSON grammar of ECMA-262, on code units. The values it
  builds: a number keeps its lexeme, as the program never computes with one. An object keeps its members in source order, duplicates included;
  a property read takes the last one.
\<close>

datatype json =
    JNull
  | JBool bool
  | JNumber jsstring
  | JString jsstring
  | JArray "json list"
  | JObject "(jsstring \<times> json) list"

datatype token =
    TLBrace | TRBrace | TLBracket | TRBracket | TColon | TComma
  | TString jsstring | TNumber jsstring | TTrue | TFalse | TNull

text \<open>
  The lexer reads one code unit at a time. Numbers and the three literal words are
  collected greedily and checked when they end: two values with nothing between them
  are a syntax error in JSON whichever way they are cut.
\<close>

datatype lexmode =
    Between
  | InString jsstring
  | InEscape jsstring
  | InUnicode jsstring "nat list"
  | InNumber jsstring
  | InWord jsstring

datatype lexstate = Lexing "token list" lexmode | LexError

definition isDigit :: "nat \<Rightarrow> bool" where
  "isDigit c \<longleftrightarrow> 0x30 \<le> c \<and> c \<le> 0x39"

definition hexValue :: "nat \<Rightarrow> nat option" where
  "hexValue c =
     (if 0x30 \<le> c \<and> c \<le> 0x39 then Some (c - 0x30)
      else if 0x41 \<le> c \<and> c \<le> 0x46 then Some (c - 0x41 + 10)
      else if 0x61 \<le> c \<and> c \<le> 0x66 then Some (c - 0x61 + 10)
      else None)"

definition digits1 :: "jsstring \<Rightarrow> jsstring option" where
  "digits1 s =
     (case s of
        [] \<Rightarrow> None
      | c # cs \<Rightarrow> if isDigit c then Some (dropWhile isDigit cs) else None)"

text \<open>The number grammar: \<open>-? (0 | [1-9][0-9]*) (. [0-9]+)? ([eE] [+-]? [0-9]+)?\<close>.\<close>

definition validNumber :: "jsstring \<Rightarrow> bool" where
  "validNumber s =
     (let s1 = (case s of c # cs \<Rightarrow> if c = 0x2D then cs else s | [] \<Rightarrow> s);
          afterInt =
            (case s1 of
               [] \<Rightarrow> None
             | c # cs \<Rightarrow>
                 if c = 0x30 then Some cs
                 else if isDigit c then Some (dropWhile isDigit cs)
                 else None);
          afterFrac =
            (case afterInt of
               None \<Rightarrow> None
             | Some r \<Rightarrow>
                 (case r of
                    c # cs \<Rightarrow> if c = 0x2E then digits1 cs else Some r
                  | [] \<Rightarrow> Some r));
          afterExp =
            (case afterFrac of
               None \<Rightarrow> None
             | Some r \<Rightarrow>
                 (case r of
                    c # cs \<Rightarrow>
                      if c = 0x65 \<or> c = 0x45
                      then (case cs of
                              d # ds \<Rightarrow> if d = 0x2B \<or> d = 0x2D then digits1 ds else digits1 cs
                            | [] \<Rightarrow> None)
                      else Some r
                  | [] \<Rightarrow> Some r))
      in afterExp = Some [])"

definition wordToken :: "jsstring \<Rightarrow> token option" where
  "wordToken w =
     (if w = str ''true'' then Some TTrue
      else if w = str ''false'' then Some TFalse
      else if w = str ''null'' then Some TNull
      else None)"

definition isNumberChar :: "nat \<Rightarrow> bool" where
  "isNumberChar c \<longleftrightarrow> isDigit c \<or> c \<in> {0x2B, 0x2D, 0x2E, 0x45, 0x65}"

definition isWordChar :: "nat \<Rightarrow> bool" where
  "isWordChar c \<longleftrightarrow> 0x61 \<le> c \<and> c \<le> 0x7A"

definition lexBetween :: "token list \<Rightarrow> nat \<Rightarrow> lexstate" where
  "lexBetween ts c =
     (if c \<in> {0x20, 0x09, 0x0A, 0x0D} then Lexing ts Between
      else if c = 0x7B then Lexing (TLBrace # ts) Between
      else if c = 0x7D then Lexing (TRBrace # ts) Between
      else if c = 0x5B then Lexing (TLBracket # ts) Between
      else if c = 0x5D then Lexing (TRBracket # ts) Between
      else if c = 0x3A then Lexing (TColon # ts) Between
      else if c = 0x2C then Lexing (TComma # ts) Between
      else if c = 0x22 then Lexing ts (InString [])
      else if c = 0x2D \<or> isDigit c then Lexing ts (InNumber [c])
      else if isWordChar c then Lexing ts (InWord [c])
      else LexError)"

definition escapeChar :: "nat \<Rightarrow> nat option" where
  "escapeChar c =
     (if c = 0x22 then Some 0x22
      else if c = 0x5C then Some 0x5C
      else if c = 0x2F then Some 0x2F
      else if c = 0x62 then Some 0x08
      else if c = 0x66 then Some 0x0C
      else if c = 0x6E then Some 0x0A
      else if c = 0x72 then Some 0x0D
      else if c = 0x74 then Some 0x09
      else None)"

fun lexStep :: "lexstate \<Rightarrow> nat \<Rightarrow> lexstate" where
  "lexStep LexError c = LexError"
| "lexStep (Lexing ts Between) c = lexBetween ts c"
| "lexStep (Lexing ts (InString acc)) c =
     (if c = 0x22 then Lexing (TString (rev acc) # ts) Between
      else if c = 0x5C then Lexing ts (InEscape acc)
      else if c < 0x20 then LexError
      else Lexing ts (InString (c # acc)))"
| "lexStep (Lexing ts (InEscape acc)) c =
     (if c = 0x75 then Lexing ts (InUnicode acc [])
      else (case escapeChar c of
              Some e \<Rightarrow> Lexing ts (InString (e # acc))
            | None \<Rightarrow> LexError))"
| "lexStep (Lexing ts (InUnicode acc hs)) c =
     (case hexValue c of
        None \<Rightarrow> LexError
      | Some h \<Rightarrow>
          if length hs = 3
          then Lexing ts (InString (foldl (\<lambda>v d. 16 * v + d) 0 (hs @ [h]) # acc))
          else Lexing ts (InUnicode acc (hs @ [h])))"
| "lexStep (Lexing ts (InNumber acc)) c =
     (if isNumberChar c then Lexing ts (InNumber (c # acc))
      else if validNumber (rev acc) then lexBetween (TNumber (rev acc) # ts) c
      else LexError)"
| "lexStep (Lexing ts (InWord acc)) c =
     (if isWordChar c then Lexing ts (InWord (c # acc))
      else (case wordToken (rev acc) of
              Some t \<Rightarrow> lexBetween (t # ts) c
            | None \<Rightarrow> LexError))"

definition lexFinish :: "lexstate \<Rightarrow> token list option" where
  "lexFinish st =
     (case st of
        LexError \<Rightarrow> None
      | Lexing ts mode \<Rightarrow>
          (case mode of
             Between \<Rightarrow> Some (rev ts)
           | InNumber acc \<Rightarrow>
               if validNumber (rev acc) then Some (rev (TNumber (rev acc) # ts)) else None
           | InWord acc \<Rightarrow> map_option (\<lambda>t. rev (t # ts)) (wordToken (rev acc))
           | InString acc \<Rightarrow> None
           | InEscape acc \<Rightarrow> None
           | InUnicode acc hs \<Rightarrow> None))"

definition tokenize :: "jsstring \<Rightarrow> token list option" where
  "tokenize text = lexFinish (foldl lexStep (Lexing [] Between) text)"

text \<open>
  The parser keeps the open arrays and objects on a stack; an object's frame holds the
  key whose value is being read.
\<close>

datatype frame = InArray "json list" | InObject "(jsstring \<times> json) list" jsstring

datatype pstate =
    ExpectValue "frame list"
  | ArrayStart "frame list"
  | ObjectStart "frame list"
  | ExpectKey "(jsstring \<times> json) list" "frame list"
  | ExpectColon "(jsstring \<times> json) list" jsstring "frame list"
  | AfterValue json "frame list"
  | ParseError

definition parseValue :: "frame list \<Rightarrow> token \<Rightarrow> pstate" where
  "parseValue stack t =
     (case t of
        TString s \<Rightarrow> AfterValue (JString s) stack
      | TNumber n \<Rightarrow> AfterValue (JNumber n) stack
      | TTrue \<Rightarrow> AfterValue (JBool True) stack
      | TFalse \<Rightarrow> AfterValue (JBool False) stack
      | TNull \<Rightarrow> AfterValue JNull stack
      | TLBracket \<Rightarrow> ArrayStart stack
      | TLBrace \<Rightarrow> ObjectStart stack
      | _ \<Rightarrow> ParseError)"

fun parseStep :: "pstate \<Rightarrow> token \<Rightarrow> pstate" where
  "parseStep ParseError t = ParseError"
| "parseStep (ExpectValue stack) t = parseValue stack t"
| "parseStep (ArrayStart stack) t =
     (if t = TRBracket then AfterValue (JArray []) stack
      else parseValue (InArray [] # stack) t)"
| "parseStep (ObjectStart stack) t =
     (case t of
        TRBrace \<Rightarrow> AfterValue (JObject []) stack
      | TString k \<Rightarrow> ExpectColon [] k stack
      | _ \<Rightarrow> ParseError)"
| "parseStep (ExpectKey members stack) t =
     (case t of TString k \<Rightarrow> ExpectColon members k stack | _ \<Rightarrow> ParseError)"
| "parseStep (ExpectColon members k stack) t =
     (if t = TColon then ExpectValue (InObject members k # stack) else ParseError)"
| "parseStep (AfterValue v []) t = ParseError"
| "parseStep (AfterValue v (InArray elems # stack)) t =
     (if t = TComma then ExpectValue (InArray (v # elems) # stack)
      else if t = TRBracket then AfterValue (JArray (rev (v # elems))) stack
      else ParseError)"
| "parseStep (AfterValue v (InObject members k # stack)) t =
     (if t = TComma then ExpectKey ((k, v) # members) stack
      else if t = TRBrace then AfterValue (JObject (rev ((k, v) # members))) stack
      else ParseError)"

text \<open>\<open>None\<close> is the \<open>SyntaxError\<close> that \<open>JSON.parse\<close> throws.\<close>

definition JSON_parse :: "jsstring \<Rightarrow> json option" where
  "JSON_parse text =
     (case tokenize text of
        None \<Rightarrow> None
      | Some ts \<Rightarrow>
          (case foldl parseStep (ExpectValue []) ts of
             AfterValue v [] \<Rightarrow> Some v
           | _ \<Rightarrow> None))"

text \<open>
  Errors the program throws or passes on. \<open>Error m\<close> is \<open>new Error(m)\<close>;
  \<open>SyntaxError\<close> and \<open>TypeError\<close> are raised by the engine, which words their
  messages.
\<close>

datatype js_error = Error jsstring | SyntaxError | TypeError

section \<open>The session manager (src/unnamed/part_002)\<close>

text \<open>
  \<open>sessions\<close> is a JavaScript \<open>Map\<close>: its entries in insertion order, at most one per
  key; \<open>set\<close> on a key it holds replaces the value in place. The two fields typed
  \<open>any\<close> hold a JSON value when they are set. \<open>Date.now()\<close> is the \<open>now\<close> handed to
  each operation, and \<open>uuidv4()\<close> the \<open>uuid\<close> handed to \<open>createSession\<close>. The field
  \<open>id\<close> is \<open>session_id\<close> here.
\<close>

record UserSession =
  session_id :: string
  lastActive :: int
  memeService :: "json option"
  analysis :: "json option"

text \<open>
  \<open>Partial<UserSession>\<close>: each field is in the patch (\<open>Some\<close>) or not (\<open>None\<close>). An
  optional field that is in the patch may hold \<open>undefined\<close>, the inner \<open>None\<close>.
\<close>

record Partial_UserSession =
  patch_id :: "string option"
  patch_lastActive :: "int option"
  patch_memeService :: "json option option"
  patch_analysis :: "json option option"

type_synonym sessions = "(string \<times> UserSession) list"

definition SESSION_TIMEOUT :: int where
  "SESSION_TIMEOUT = 1000 * 60 * 30"

definition createSession :: "string \<Rightarrow> int \<Rightarrow> sessions \<Rightarrow> string \<times> sessions" where
  "createSession uuid now ss =
     (uuid,
      AList.update uuid
        \<lparr>session_id = uuid, lastActive = now, memeService = None, analysis = None\<rparr> ss)"

text \<open>
  \<open>getSession\<close> returns its local variable \<open>session\<close>, which starts as the result of
  \<open>sessions.get\<close>: \<open>None\<close> is \<open>undefined\<close>, the value a caller's \<open>!session\<close> test
  looks for.
\<close>

definition getSession :: "int \<Rightarrow> string \<Rightarrow> sessions \<Rightarrow> UserSession option \<times> sessions" where
  "getSession now sessionId ss =
     (case map_of ss sessionId of
        None \<Rightarrow>
          (let session =
                 \<lparr>session_id = sessionId, lastActive = now, memeService = None, analysis = None\<rparr>
           in (Some session, AList.update sessionId session ss))
      | Some session \<Rightarrow> (Some session, ss))"

text \<open>The object spread \<open>{...session, ...data, lastActive: Date.now()}\<close>.\<close>

definition spread :: "UserSession \<Rightarrow> Partial_UserSession \<Rightarrow> int \<Rightarrow> UserSession" where
  "spread session data now =
     \<lparr>session_id = (case patch_id data of None \<Rightarrow> session_id session | Some v \<Rightarrow> v),
      lastActive = now,
      memeService = (case patch_memeService data of None \<Rightarrow> memeService session | Some v \<Rightarrow> v),
      analysis = (case patch_analysis data of None \<Rightarrow> analysis session | Some v \<Rightarrow> v)\<rparr>"

definition updateSession :: "int \<Rightarrow> string \<Rightarrow> Partial_UserSession \<Rightarrow> sessions \<Rightarrow> sessions" where
  "updateSession now sessionId data ss =
     (case map_of ss sessionId of
        None \<Rightarrow> ss
      | Some session \<Rightarrow> AList.update sessionId (spread session data now) ss)"

text \<open>The callback of \<open>startCleanupInterval\<close>, run every five minutes.\<close>

fun cleanup :: "int \<Rightarrow> sessions \<Rightarrow> sessions" where
  "cleanup now [] = []"
| "cleanup now ((sessionId, session) # rest) =
     (if now - lastActive session > SESSION_TIMEOUT then cleanup now rest
      else (sessionId, session) # cleanup now rest)"

section \<open>The image analysis endpoint (src/unnamed/part_000)\<close>

text \<open>
  The request is the parsed form, or the error \<open>req.formData()\<close> throws. A field is
  absent (\<open>null\<close>) or present; the field \<open>file\<close> may hold a file or a text value,
  whatever the handler's cast says, and \<open>arrayBuffer\<close> exists on a file only. The
  fields \<open>memeName\<close> and \<open>sessionId\<close> are read as text. The vision model is a
  parameter: it throws, or answers with \<open>choices[0]?.message?.content\<close>. A response
  is its status and its JSON body; \<open>ErrorBody e\<close> is \<open>{error: m}\<close> for the message
  \<open>m\<close> of \<open>e\<close>. The handler reads the clock twice, in \<open>getSession\<close> and in
  \<open>updateSession\<close>.
\<close>

datatype 'f entry = Text jsstring | File 'f

record 'f formData =
  form_file :: "'f entry option"
  form_memeName :: "jsstring option"
  form_sessionId :: "string option"

datatype completion = Throws js_error | Content "jsstring option"

datatype body = ErrorBody js_error | SuccessBody json

record response =
  status :: nat
  body :: body

definition json_response :: "body \<Rightarrow> nat \<Rightarrow> response" where
  "json_response b s = \<lparr>status = s, body = b\<rparr>"

text \<open>The messages with letters outside ASCII, as code units.\<close>

definition Sesion_invalida :: jsstring where
  "Sesion_invalida = str ''Sesi'' @ [0xF3] @ str ''n inv'' @ [0xE1] @ str ''lida''"

definition No_se_recibio :: jsstring where
  "No_se_recibio =
     str ''No se recibi'' @ [0xF3] @ str '' respuesta v'' @ [0xE1] @ str ''lida de OpenAI''"

definition POST ::
  "('f \<Rightarrow> jsstring \<Rightarrow> completion) \<Rightarrow> int \<Rightarrow> int \<Rightarrow> js_error + 'f formData \<Rightarrow> sessions
     \<Rightarrow> response \<times> sessions" where
  "POST openai now now' req ss =
     (case req of
        Inl e \<Rightarrow> (json_response (ErrorBody e) 500, ss)
      | Inr form \<Rightarrow>
          (case form_sessionId form of
             None \<Rightarrow> (json_response (ErrorBody (Error (str ''Se requiere sessionId''))) 400, ss)
           | Some sessionId \<Rightarrow>
               if sessionId = []
               then (json_response (ErrorBody (Error (str ''Se requiere sessionId''))) 400, ss)
               else
                 (let (session, ss1) = getSession now sessionId ss in
                  case session of
                    None \<Rightarrow> (json_response (ErrorBody (Error Sesion_invalida)) 401, ss1)
                  | Some s \<Rightarrow>
                      (case (form_file form, form_memeName form) of
                         (Some file, Some memeName) \<Rightarrow>
                           if file = Text [] \<or> memeName = []
                           then (json_response
                                   (ErrorBody (Error (str ''Se requiere archivo y nombre del meme'')))
                                   400, ss1)
                           else
                             (case file of
                                Text t \<Rightarrow> (json_response (ErrorBody TypeError) 500, ss1)
                              | File f \<Rightarrow>
                                  (case openai f memeName of
                                     Throws e \<Rightarrow> (json_response (ErrorBody e) 500, ss1)
                                   | Content None \<Rightarrow>
                                       (json_response (ErrorBody (Error No_se_recibio)) 500, ss1)
                                   | Content (Some analysisContent) \<Rightarrow>
                                       if analysisContent = []
                                       then (json_response (ErrorBody (Error No_se_recibio)) 500,
                                             ss1)
                                       else
                                         (case JSON_parse analysisContent of
                                            None \<Rightarrow>
                                              (json_response (ErrorBody SyntaxError) 500, ss1)
                                          | Some a \<Rightarrow>
                                              (json_response (SuccessBody a) 200,
                                               updateSession now' sessionId
                                                 \<lparr>patch_id = None, patch_lastActive = None,
                                                  patch_memeService = None,
                                                  patch_analysis = Some (Some a)\<rparr> ss1))))
                       | _ \<Rightarrow>
                           (json_response
                              (ErrorBody (Error (str ''Se requiere archivo y nombre del meme'')))
                              400, ss1)))))"

section \<open>The rate limiter (src/ui/app/services/rateLimit.ts)\<close>

text \<open>
  The module keeps one process-wide object \<open>store\<close> whose own properties map a client
  key to \<open>{count, timestamp}\<close>. The object is modelled by the list of its own
  properties in insertion order, no two under one name; \<open>Date.now()\<close> is the integer
  \<open>now\<close> handed to each call. Counts stay far below \<open>2^53\<close>, so the JavaScript number
  is a \<open>nat\<close>.
\<close>

record window_entry =
  count :: nat
  timestamp :: int

type_synonym RateLimitStore = "(string \<times> window_entry) list"

definition windowMs :: int where
  "windowMs = 60 * 1000"

definition limit :: nat where
  "limit = 10"

text \<open>
  \<open>store\<close> is created by the literal \<open>{}\<close>, so a read \<open>store[ip]\<close> that finds no own
  property continues along the prototype chain to \<open>Object.prototype\<close>. The names
  below are the members every ordinary object inherits from there; each of them reads
  as a function (or, for \<open>__proto__\<close>, as \<open>Object.prototype\<close> itself): a truthy object
  that has neither a \<open>count\<close> nor a \<open>timestamp\<close>.
\<close>

definition Object_prototype_names :: "string list" where
  "Object_prototype_names =
     [''constructor'', ''__defineGetter__'', ''__defineSetter__'', ''hasOwnProperty'',
      ''__lookupGetter__'', ''__lookupSetter__'', ''isPrototypeOf'',
      ''propertyIsEnumerable'', ''toString'', ''valueOf'', ''__proto__'',
      ''toLocaleString'']"

datatype slot = Own window_entry | Inherited | Undefined

definition lookup :: "RateLimitStore \<Rightarrow> string \<Rightarrow> slot" where
  "lookup store ip =
     (case map_of store ip of
        Some e \<Rightarrow> Own e
      | None \<Rightarrow> if ip \<in> set Object_prototype_names then Inherited else Undefined)"

text \<open>
  The cleanup loop \<open>for (const key in store) if (now - store[key].timestamp > windowMs)
  delete store[key]\<close> visits every own property once and removes the stale ones.
\<close>

fun purge :: "int \<Rightarrow> RateLimitStore \<Rightarrow> RateLimitStore" where
  "purge now [] = []"
| "purge now ((key, e) # rest) =
     (if now - timestamp e > windowMs then purge now rest else (key, e) # purge now rest)"

text \<open>
  The three branches of the update, then the result \<open>store[ip].count <= limit\<close> read
  back from the updated store. On an inherited member neither "new window" branch is
  taken: \<open>!store[ip]\<close> is false and \<open>now - undefined > windowMs\<close> is false
  (\<open>NaN\<close> compares false), so \<open>count++\<close> runs on the inherited object, whose \<open>count\<close>
  becomes \<open>NaN\<close>; the store's own properties do not change and \<open>NaN <= limit\<close> is
  false.
\<close>

definition rateLimit :: "int \<Rightarrow> string \<Rightarrow> RateLimitStore \<Rightarrow> RateLimitStore \<times> bool" where
  "rateLimit now ip store0 =
     (let store = purge now store0;
          store' =
            (case lookup store ip of
               Undefined \<Rightarrow> AList.update ip \<lparr>count = 1, timestamp = now\<rparr> store
             | Own e \<Rightarrow>
                 if now - timestamp e > windowMs
                 then AList.update ip \<lparr>count = 1, timestamp = now\<rparr> store
                 else AList.update ip (e\<lparr>count := count e + 1\<rparr>) store
             | Inherited \<Rightarrow> store)
      in (store',
          (case lookup store' ip of
             Own e \<Rightarrow> count e \<le> limit
           | Inherited \<Rightarrow> False
           | Undefined \<Rightarrow> False)))"

text \<open>A sequence of calls \<open>(now, ip)\<close> made one after the other, with their results.\<close>

fun rateLimit_calls ::
  "(int \<times> string) list \<Rightarrow> RateLimitStore \<Rightarrow> bool list \<times> RateLimitStore" where
  "rateLimit_calls [] store = ([], store)"
| "rateLimit_calls ((now, ip) # calls) store =
     (let (store', success) = rateLimit now ip store;
          (rs, store'') = rateLimit_calls calls store'
      in (success # rs, store''))"

text \<open>The results of the calls made for \<open>ip\<close>, in order, and how many there were.\<close>

definition results_for :: "string \<Rightarrow> (int \<times> string) list \<Rightarrow> bool list \<Rightarrow> bool list" where
  "results_for ip calls rs = map snd (filter (\<lambda>((now, k), r). k = ip) (zip calls rs))"

definition calls_of :: "string \<Rightarrow> (int \<times> string) list \<Rightarrow> nat" where
  "calls_of ip calls = length (filter (\<lambda>(now, k). k = ip) calls)"

section \<open>TextDecoder\<close>

text \<open>
  \<open>new TextDecoder()\<close> decodes UTF-8, replaces malformed input by U+FFFD and drops a
  leading byte order mark, as the Encoding standard's UTF-8 decoder does. The
  decoder's state is \<open>Idle\<close>, or \<open>Pending cp n lo hi\<close> inside a sequence: the code
  point so far, the bytes still needed and the bounds on the next byte. A byte is a
  \<open>nat\<close> below 256, so \<open>b AND 0x3F\<close> of a continuation byte is \<open>b - 0x80\<close>, and
  likewise for the lead bytes.
\<close>

datatype utf8_state = Idle | Pending nat nat nat nat

definition leadByte :: "nat \<Rightarrow> nat list \<times> utf8_state" where
  "leadByte b =
     (if b \<le> 0x7F then ([b], Idle)
      else if 0xC2 \<le> b \<and> b \<le> 0xDF then ([], Pending (b - 0xC0) 1 0x80 0xBF)
      else if 0xE0 \<le> b \<and> b \<le> 0xEF
      then ([], Pending (b - 0xE0) 2 (if b = 0xE0 then 0xA0 else 0x80)
                  (if b = 0xED then 0x9F else 0xBF))
      else if 0xF0 \<le> b \<and> b \<le> 0xF4
      then ([], Pending (b - 0xF0) 3 (if b = 0xF0 then 0x90 else 0x80)
                  (if b = 0xF4 then 0x8F else 0xBF))
      else ([0xFFFD], Idle))"

text \<open>
  A byte outside the bounds ends the sequence with U+FFFD and is read again as a lead
  byte.
\<close>

definition decodeStep :: "utf8_state \<Rightarrow> nat \<Rightarrow> nat list \<times> utf8_state" where
  "decodeStep st b =
     (case st of
        Idle \<Rightarrow> leadByte b
      | Pending cp n lo hi \<Rightarrow>
          if lo \<le> b \<and> b \<le> hi
          then (let cp' = cp * 64 + (b - 0x80)
                in if n = 1 then ([cp'], Idle) else ([], Pending cp' (n - 1) 0x80 0xBF))
          else (let (out, st') = leadByte b in (0xFFFD # out, st')))"

text \<open>The code points of a byte sequence; at its end an unfinished sequence is U+FFFD.\<close>

fun utf8_decode :: "utf8_state \<Rightarrow> nat list \<Rightarrow> nat list" where
  "utf8_decode st [] = (case st of Idle \<Rightarrow> [] | Pending cp n lo hi \<Rightarrow> [0xFFFD])"
| "utf8_decode st (b # bs) = (let (out, st') = decodeStep st b in out @ utf8_decode st' bs)"

definition stripBOM :: "nat list \<Rightarrow> nat list" where
  "stripBOM cps = (case cps of [] \<Rightarrow> [] | c # rest \<Rightarrow> if c = 0xFEFF then rest else cps)"

definition utf16 :: "nat \<Rightarrow> jsstring" where
  "utf16 cp =
     (if cp < 0x10000 then [cp]
      else [0xD800 + (cp - 0x10000) div 0x400, 0xDC00 + (cp - 0x10000) mod 0x400])"

text \<open>
  \<open>decoder.decode(value)\<close> with no \<open>stream\<close> option: every call starts a new decoder
  and flushes it at the end of \<open>value\<close>.
\<close>

definition TextDecoder_decode :: "nat list \<Rightarrow> jsstring" where
  "TextDecoder_decode bytes = concat (map utf16 (stripBOM (utf8_decode Idle bytes)))"

section \<open>The conversation generator (src/unnamed/part_001)\<close>

record CharacterAnalysis =
  name :: jsstring
  appearanceTraits :: "jsstring list"
  possibleJokes :: "jsstring list"
  personality :: jsstring

text \<open>The private fields of a \<open>MemeService\<close>; \<open>descripcionPersonaje\<close> starts as \<open>null\<close>.\<close>

record MemeService =
  descripcionPersonaje :: "CharacterAnalysis option"
  descripcionTexto :: jsstring
  memeName :: jsstring
  imageUrl :: jsstring

definition new_MemeService :: MemeService where
  "new_MemeService =
     \<lparr>descripcionPersonaje = None, descripcionTexto = [], memeName = [], imageUrl = []\<rparr>"

definition convertToTextDescription :: "CharacterAnalysis \<Rightarrow> jsstring" where
  "convertToTextDescription a =
     str ''Name: '' @ name a @ [0x0A] @ str ''      '' @ [0x0A] @
     str ''Physical Appearance:'' @ [0x0A] @
     join [0x0A] (map (\<lambda>trait. str ''- '' @ trait) (appearanceTraits a)) @ [0x0A, 0x0A] @
     str ''Possible Jokes:'' @ [0x0A] @
     join [0x0A] (map (\<lambda>joke. str ''- '' @ joke) (possibleJokes a)) @ [0x0A, 0x0A] @
     str ''Personality: '' @ personality a"

definition initializeCharacter :: "CharacterAnalysis \<Rightarrow> jsstring \<Rightarrow> MemeService \<Rightarrow> MemeService" where
  "initializeCharacter a url svc =
     svc\<lparr>descripcionPersonaje := Some a,
         descripcionTexto := convertToTextDescription a,
         memeName := name a,
         imageUrl := url\<rparr>"

text \<open>What the generator yields; \<open>turn_imageUrl\<close> is its field \<open>imageUrl\<close>.\<close>

record turn =
  speaker :: jsstring
  message :: jsstring
  turn_imageUrl :: jsstring
  isHacky :: bool

text \<open>
  \<open>data.message\<close>: reading a property of \<open>null\<close> throws a \<open>TypeError\<close>; an object
  gives its last member of that name; anything else, or an object without one, gives
  \<open>undefined\<close> (the inner \<open>None\<close>).
\<close>

definition get_message :: "json \<Rightarrow> js_error + json option" where
  "get_message data =
     (case data of
        JNull \<Rightarrow> Inl TypeError
      | JObject members \<Rightarrow> Inr (map_of (rev members) (str ''message''))
      | _ \<Rightarrow> Inr None)"

text \<open>
  The body of \<open>for (const line of lines)\<close>: the turn the line yields, if any. The
  \<open>catch\<close> inside the loop only logs, so a \<open>SyntaxError\<close> of \<open>JSON.parse\<close> and a
  \<open>TypeError\<close> both end the line with nothing yielded. A message that is not a string is
  either falsy and skipped, or truthy without a \<open>startsWith\<close> method, which is the
  \<open>TypeError\<close> again; the empty string is falsy.
\<close>

definition processLine :: "MemeService \<Rightarrow> jsstring \<Rightarrow> turn option" where
  "processLine svc line =
     (if startsWith line (str ''data: '')
      then (case JSON_parse (slice 5 line) of
              None \<Rightarrow> None
            | Some data \<Rightarrow>
                (case get_message data of
                   Inl e \<Rightarrow> None
                 | Inr None \<Rightarrow> None
                 | Inr (Some (JString m)) \<Rightarrow>
                     if m = [] then None
                     else
                       (let isHackyMessage = startsWith m (str ''Hacky:'')
                        in Some
                             \<lparr>speaker = (if isHackyMessage then str ''Hacky'' else memeName svc),
                              message =
                                (if isHackyMessage then trim (slice 6 m)
                                 else trim (slice (length (memeName svc) + 1) m)),
                              turn_imageUrl =
                                (if isHackyMessage then str ''/images/hacky.jpeg''
                                 else imageUrl svc),
                              isHacky = isHackyMessage\<rparr>)
                 | Inr (Some other) \<Rightarrow> None))
      else None)"

fun processLines :: "MemeService \<Rightarrow> jsstring list \<Rightarrow> turn list" where
  "processLines svc [] = []"
| "processLines svc (line # lines) =
     (case processLine svc line of
        None \<Rightarrow> processLines svc lines
      | Some t \<Rightarrow> t # processLines svc lines)"

text \<open>
  One round of \<open>while (true)\<close> after a chunk has arrived: the turns it yields and the
  new buffer. \<open>lines.pop()\<close> takes the last line off; \<open>|| ''\<close> changes nothing, as the
  only falsy string is the empty one.
\<close>

definition readChunk :: "MemeService \<Rightarrow> jsstring \<Rightarrow> nat list \<Rightarrow> turn list \<times> jsstring" where
  "readChunk svc buffer value =
     (let buffer' = buffer @ TextDecoder_decode value;
          lines = split 0x0A buffer'
      in (processLines svc (butlast lines), last lines))"

text \<open>The loop over the chunks of the body; \<open>done\<close> ends it and the buffer is dropped.\<close>

fun readLoop :: "MemeService \<Rightarrow> jsstring \<Rightarrow> nat list list \<Rightarrow> turn list" where
  "readLoop svc buffer [] = []"
| "readLoop svc buffer (value # rest) =
     (let (turns, buffer') = readChunk svc buffer value
      in turns @ readLoop svc buffer' rest)"

text \<open>
  \<open>fetch\<close> is a parameter: it rejects, or resolves with a response whose body is
  \<open>null\<close>, or a finite sequence of chunks after which \<open>reader.read()\<close> reports
  \<open>done\<close> (\<open>None\<close>) or rejects (\<open>Some e\<close>). The requests made so far are the state
  of the network. The generator is run to its end: the result is the turns it yields
  and the error it ends with, if it ends by throwing. The outer \<open>catch\<close> logs the
  error and throws it again.
\<close>

record chat_request =
  url :: jsstring
  req_topic :: jsstring
  req_description :: jsstring
  req_memeName :: jsstring

datatype fetch_result = Rejects js_error | Resolves "(nat list list \<times> js_error option) option"

definition generateConversation ::
  "(chat_request \<Rightarrow> fetch_result) \<Rightarrow> MemeService \<Rightarrow> jsstring \<Rightarrow> chat_request list
     \<Rightarrow> (turn list \<times> js_error option) \<times> chat_request list" where
  "generateConversation fetch svc topic requests =
     (if descripcionPersonaje svc = None \<or> descripcionTexto svc = []
      then (([], Some (Error (str ''Must analyze image first''))), requests)
      else
        (let request =
               \<lparr>url = str ''/api/meme/chat'', req_topic = topic,
                req_description = descripcionTexto svc, req_memeName = memeName svc\<rparr>;
             requests' = requests @ [request]
         in case fetch request of
              Rejects e \<Rightarrow> (([], Some e), requests')
            | Resolves None \<Rightarrow> (([], Some (Error (str ''No response body''))), requests')
            | Resolves (Some (chunks, ending)) \<Rightarrow>
                ((readLoop svc [] chunks, ending), requests')))"

text \<open>The turns of a decoded text: those of its complete lines.\<close>

definition turnsOfText :: "MemeService \<Rightarrow> jsstring \<Rightarrow> turn list" where
  "turnsOfText svc text = processLines svc (butlast (split 0x0A text))"

section \<open>Auxiliary notions\<close>

text \<open>
  What holds of the store after the calls \<open>calls\<close>, made in this order from the empty
  store by a clock that does not run backwards: every entry belongs to a key that is
  not an inherited name, was opened by a call of the trace, counts the key's calls
  since then, and all of those lie within \<open>windowMs\<close> of its start; the calls of a key
  without an entry lie strictly before the last call.
\<close>

definition window_invariant :: "(int \<times> string) list \<Rightarrow> RateLimitStore \<Rightarrow> bool" where
  "window_invariant calls store \<longleftrightarrow>
     distinct (map fst store) \<and>
     (\<forall>k e. map_of store k = Some e \<longrightarrow>
        k \<notin> set Object_prototype_names \<and>
        (timestamp e, k) \<in> set calls \<and>
        count e = length (filter (\<lambda>(t, k'). k' = k \<and> timestamp e \<le> t) calls) \<and>
        (\<forall>(t, k') \<in> set calls. k' = k \<and> timestamp e \<le> t \<longrightarrow> t \<le> timestamp e + windowMs)) \<and>
     (\<forall>k. k \<notin> set Object_prototype_names \<longrightarrow> map_of store k = None \<longrightarrow>
        (\<forall>(t, k') \<in> set calls. k' = k \<longrightarrow> t < fst (last calls)))"

text \<open>A service after \<open>initializeCharacter\<close>, for the examples.\<close>

definition pepe :: MemeService where
  "pepe =
     initializeCharacter
       \<lparr>name = str ''Pepe'', appearanceTraits = [str ''green frog''],
        possibleJokes = [str ''feels good''], personality = str ''smug''\<rparr>
       (str ''blob:pepe'') new_MemeService"

section \<open>Properties of the rate limiter\<close>

lemma purge_filter:
  "purge now store = filter (\<lambda>(k, e). \<not> now - timestamp e > windowMs) store"
  by (induction now store rule: purge.induct) auto

lemma distinct_purge:
  "distinct (map fst store) \<Longrightarrow> distinct (map fst (purge now store))"
  by (simp add: purge_filter distinct_map_filter)

lemma map_of_purge:
  "distinct (map fst store) \<Longrightarrow>
   map_of (purge now store) k =
     (case map_of store k of
        None \<Rightarrow> None
      | Some e \<Rightarrow> if now - timestamp e > windowMs then None else Some e)"
proof (induction now store rule: purge.induct)
  case (1 now)
  then show ?case by simp
next
  case (2 now key e rest)
  then have "key \<notin> fst ` set rest" by simp
  then have "map_of rest key = None" by (simp add: map_of_eq_None_iff)
  with 2 show ?case by (auto split: option.splits)
qed

lemma lookup_ordinary:
  "ip \<notin> set Object_prototype_names \<Longrightarrow>
   lookup store ip = (case map_of store ip of Some e \<Rightarrow> Own e | None \<Rightarrow> Undefined)"
  by (simp add: lookup_def split: option.splits)

lemma rateLimit_ordinary:
  assumes "ip \<notin> set Object_prototype_names" "distinct (map fst store)"
  shows "rateLimit now ip store =
     (case map_of (purge now store) ip of
        None \<Rightarrow> (AList.update ip \<lparr>count = 1, timestamp = now\<rparr> (purge now store), 1 \<le> limit)
      | Some e \<Rightarrow> (AList.update ip (e\<lparr>count := count e + 1\<rparr>) (purge now store), count e + 1 \<le> limit))"
  using assms
  by (auto simp: rateLimit_def Let_def lookup_ordinary update_conv' map_of_purge split: option.splits if_splits)

lemma rateLimit_inherited:
  assumes "ip \<in> set Object_prototype_names" "map_of store ip = None" "distinct (map fst store)"
  shows "rateLimit now ip store = (purge now store, False)"
  using assms by (simp add: rateLimit_def Let_def lookup_def map_of_purge)

lemma distinct_rateLimit:
  "distinct (map fst store) \<Longrightarrow> distinct (map fst (fst (rateLimit now ip store)))"
  by (auto simp: rateLimit_def Let_def distinct_purge distinct_update split: slot.splits)

lemma rateLimit_other:
  assumes "distinct (map fst store)" "k \<noteq> ip"
  shows "map_of (fst (rateLimit now k store)) ip = map_of (purge now store) ip"
  using assms
  by (auto simp: rateLimit_def Let_def update_conv' split: slot.splits)

lemma rateLimit_same:
  assumes "ip \<notin> set Object_prototype_names" "distinct (map fst store)"
    "map_of store ip = Some e" "now - timestamp e \<le> windowMs"
  shows "rateLimit now ip store =
           (AList.update ip (e\<lparr>count := count e + 1\<rparr>) (purge now store), count e + 1 \<le> limit)"
  using assms by (simp add: rateLimit_ordinary map_of_purge)

lemma rateLimit_fresh:
  assumes "ip \<notin> set Object_prototype_names" "distinct (map fst store)"
    "case map_of store ip of None \<Rightarrow> True | Some e \<Rightarrow> now - timestamp e > windowMs"
  shows "rateLimit now ip store =
           (AList.update ip \<lparr>count = 1, timestamp = now\<rparr> (purge now store), True)"
proof (cases "map_of store ip")
  case None
  then show ?thesis using assms(1,2) by (simp add: rateLimit_ordinary map_of_purge limit_def)
next
  case (Some e)
  then have "now - timestamp e > windowMs" using assms(3) by simp
  then show ?thesis using Some assms(1,2) by (simp add: rateLimit_ordinary map_of_purge limit_def)
qed

lemma rateLimit_calls_snoc:
  "snd (rateLimit_calls (calls @ [(now, ip)]) store) =
     fst (rateLimit now ip (snd (rateLimit_calls calls store)))"
proof (induction calls arbitrary: store)
  case Nil
  then show ?case by (simp add: case_prod_beta)
next
  case (Cons c calls)
  obtain t k where c: "c = (t, k)" by (cases c)
  show ?case using Cons.IH by (simp add: c Let_def case_prod_beta)
qed

lemma window_invariant_step:
  assumes inv: "window_invariant calls store"
    and mono: "\<forall>(t, k) \<in> set calls. t \<le> now"
  shows "window_invariant (calls @ [(now, ip)]) (fst (rateLimit now ip store))"
proof -
  let ?calls' = "calls @ [(now, ip)]"
  let ?store' = "fst (rateLimit now ip store)"
  have d: "distinct (map fst store)" using inv by (simp add: window_invariant_def)
  have own: "\<And>k e. map_of store k = Some e \<Longrightarrow>
        k \<notin> set Object_prototype_names \<and>
        (timestamp e, k) \<in> set calls \<and>
        count e = length (filter (\<lambda>(t, k'). k' = k \<and> timestamp e \<le> t) calls) \<and>
        (\<forall>(t, k') \<in> set calls. k' = k \<and> timestamp e \<le> t \<longrightarrow> t \<le> timestamp e + windowMs)"
    using inv unfolding window_invariant_def by blast
  have absent: "\<And>k t. k \<notin> set Object_prototype_names \<Longrightarrow> map_of store k = None \<Longrightarrow>
        (t, k) \<in> set calls \<Longrightarrow> t < fst (last calls)"
    using inv unfolding window_invariant_def by blast
  have wpos: "0 < windowMs" by (simp add: windowMs_def)
  have last_le: "calls \<noteq> [] \<Longrightarrow> fst (last calls) \<le> now"
    using mono last_in_set[of calls] by (cases "last calls") auto
  \<comment> \<open>every earlier request of a key that has no live window lies strictly before now\<close>
  have before: "t < now"
    if ord: "k \<notin> set Object_prototype_names" and gone: "map_of (purge now store) k = None"
      and mem: "(t, k) \<in> set calls" for k t
  proof (cases "map_of store k")
    case None
    have "calls \<noteq> []" using mem by auto
    then show ?thesis using absent[OF ord None mem] last_le by simp
  next
    case (Some e0)
    then have stale: "now - timestamp e0 > windowMs"
      using gone map_of_purge[OF d, of now k] by (simp split: if_splits)
    show ?thesis
    proof (cases "timestamp e0 \<le> t")
      case True
      then have "t \<le> timestamp e0 + windowMs" using own[OF Some] mem by auto
      then show ?thesis using stale by simp
    next
      case False
      then show ?thesis using stale wpos by simp
    qed
  qed
  have d': "distinct (map fst ?store')" using distinct_rateLimit[OF d] .
  have own': "k \<notin> set Object_prototype_names \<and>
        (timestamp e, k) \<in> set ?calls' \<and>
        count e = length (filter (\<lambda>(t, k'). k' = k \<and> timestamp e \<le> t) ?calls') \<and>
        (\<forall>(t, k') \<in> set ?calls'. k' = k \<and> timestamp e \<le> t \<longrightarrow> t \<le> timestamp e + windowMs)"
    if m: "map_of ?store' k = Some e" for k e
  proof (cases "k = ip")
    case False
    then have "map_of (purge now store) k = Some e" using rateLimit_other[OF d, of ip k now] m by simp
    then have m0: "map_of store k = Some e" and live: "now - timestamp e \<le> windowMs"
      using map_of_purge[OF d, of now k] by (auto split: option.splits if_splits)
    show ?thesis using own[OF m0] False by auto
  next
    case True
    have ord: "ip \<notin> set Object_prototype_names"
    proof
      assume inh: "ip \<in> set Object_prototype_names"
      have "map_of store ip = None"
      proof (cases "map_of store ip")
        case (Some a) then show ?thesis using own[OF Some] inh by simp
      qed simp
      then have "?store' = purge now store" using rateLimit_inherited[OF inh _ d] by simp
      then have "map_of (purge now store) ip = Some e" using m True by simp
      then have "map_of store ip = Some e"
        using map_of_purge[OF d, of now ip] by (auto split: option.splits if_splits)
      then show False using own inh by blast
    qed
    show ?thesis
    proof (cases "map_of (purge now store) ip")
      case None
      then have "?store' = AList.update ip \<lparr>count = 1, timestamp = now\<rparr> (purge now store)"
        using rateLimit_ordinary[OF ord d, of now] by simp
      then have e: "e = \<lparr>count = 1, timestamp = now\<rparr>" using m True by (simp add: update_conv')
      have b: "\<forall>t. (t, ip) \<in> set calls \<longrightarrow> t < now"
        using before[OF ord None] by blast
      have nil: "filter (\<lambda>(t, k'). k' = ip \<and> now \<le> t) calls = []"
        using b by (fastforce simp: filter_empty_conv)
      have "\<forall>(t, k') \<in> set calls. k' = ip \<and> now \<le> t \<longrightarrow> t \<le> now + windowMs"
        using b by fastforce
      then show ?thesis using ord e True nil wpos by simp
    next
      case (Some e0)
      then have m0: "map_of store ip = Some e0" and live: "now - timestamp e0 \<le> windowMs"
        using map_of_purge[OF d, of now ip] by (auto split: option.splits if_splits)
      have "?store' = AList.update ip (e0\<lparr>count := count e0 + 1\<rparr>) (purge now store)"
        using rateLimit_ordinary[OF ord d, of now] Some by simp
      then have e: "e = e0\<lparr>count := count e0 + 1\<rparr>" using m True by (simp add: update_conv')
      have "timestamp e0 \<le> now" using own[OF m0] mono by auto
      then show ?thesis using own[OF m0] e True live by auto
    qed
  qed
  have absent': "t < fst (last ?calls')"
    if ord: "k \<notin> set Object_prototype_names" and none: "map_of ?store' k = None"
      and mem: "(t, k) \<in> set ?calls'" for k t
  proof -
    have ne: "k \<noteq> ip"
    proof
      assume "k = ip"
      then have "map_of ?store' k \<noteq> None"
        using rateLimit_ordinary[OF ord[unfolded \<open>k = ip\<close>] d, of now]
        by (auto simp: update_conv' split: option.splits)
      then show False using none by simp
    qed
    then have gone: "map_of (purge now store) k = None"
      using rateLimit_other[OF d, of ip k now] none by simp
    have "(t, k) \<in> set calls" using mem ne by auto
    then show ?thesis using before[OF ord gone] by simp
  qed
  show ?thesis
    unfolding window_invariant_def
    using d' own' absent' by (auto simp del: set_append)
qed


lemma window_invariant_reachable:
  "sorted (map fst calls) \<Longrightarrow> window_invariant calls (snd (rateLimit_calls calls []))"
proof (induction calls rule: rev_induct)
  case Nil
  then show ?case by (simp add: window_invariant_def)
next
  case (snoc c calls)
  obtain now ip where c: "c = (now, ip)" by (cases c)
  have s: "sorted (map fst calls)" and m: "\<forall>(t, k) \<in> set calls. t \<le> now"
    using snoc.prems by (auto simp: c sorted_append)
  show ?case
    using window_invariant_step[OF snoc.IH[OF s] m, of ip]
    by (simp add: c rateLimit_calls_snoc)
qed

lemma upt_0_Suc_map: "map f [0..<Suc n] = f 0 # map (\<lambda>j. f (Suc j)) [0..<n]"
proof -
  have "[0..<Suc n] = 0 # map Suc [0..<n]"
    by (simp only: map_Suc_upt upt_conv_Cons[OF zero_less_Suc])
  then show ?thesis by (simp only: list.map map_map o_def)
qed

lemma within_window:
  assumes "ip \<notin> set Object_prototype_names"
  shows "distinct (map fst store) \<Longrightarrow> map_of store ip = Some e \<Longrightarrow>
     \<forall>(now, k) \<in> set calls. now - timestamp e \<le> windowMs \<Longrightarrow>
     results_for ip calls (fst (rateLimit_calls calls store)) =
        map (\<lambda>j. count e + j + 1 \<le> limit) [0..<calls_of ip calls] \<and>
     map_of (snd (rateLimit_calls calls store)) ip = Some (e\<lparr>count := count e + calls_of ip calls\<rparr>) \<and>
     distinct (map fst (snd (rateLimit_calls calls store)))"
proof (induction calls arbitrary: store e)
  case Nil
  then show ?case by (simp add: results_for_def calls_of_def)
next
  case (Cons c calls)
  obtain now k where c: "c = (now, k)" by (cases c)
  obtain store' ok where r: "rateLimit now k store = (store', ok)" by (cases "rateLimit now k store")
  obtain rs store'' where rc: "rateLimit_calls calls store' = (rs, store'')"
    by (cases "rateLimit_calls calls store'")
  have d': "distinct (map fst store')" using distinct_rateLimit[OF Cons.prems(1), of now k] r by simp
  have live: "now - timestamp e \<le> windowMs" using Cons.prems(3) c by auto
  have rest: "\<forall>(now, k) \<in> set calls. now - timestamp e \<le> windowMs" using Cons.prems(3) by auto
  show ?case
  proof (cases "k = ip")
    case True
    let ?e' = "e\<lparr>count := count e + 1\<rparr>"
    have r': "store' = AList.update ip ?e' (purge now store)" "ok = (count e + 1 \<le> limit)"
      using rateLimit_same[OF assms Cons.prems(1,2) live] r True by auto
    have m': "map_of store' ip = Some ?e'" by (simp add: r' update_conv')
    have rest': "\<forall>(now, k) \<in> set calls. now - timestamp ?e' \<le> windowMs" using rest by simp
    from Cons.IH[OF d' m' rest'] rc
    have IH: "results_for ip calls rs = map (\<lambda>j. count ?e' + j + 1 \<le> limit) [0..<calls_of ip calls]"
      "map_of store'' ip = Some (?e'\<lparr>count := count ?e' + calls_of ip calls\<rparr>)"
      "distinct (map fst store'')" by auto
    have n: "calls_of ip ((now, ip) # calls) = Suc (calls_of ip calls)" by (simp add: calls_of_def)
    show ?thesis
      using IH r rc r'(2) True
      by (simp add: c n upt_0_Suc_map results_for_def del: upt_Suc)
  next
    case False
    have m': "map_of store' ip = Some e"
      using rateLimit_other[OF Cons.prems(1) False, of now] r live Cons.prems(2)
      by (simp add: map_of_purge[OF Cons.prems(1)])
    from Cons.IH[OF d' m' rest] rc
    have IH: "results_for ip calls rs = map (\<lambda>j. count e + j + 1 \<le> limit) [0..<calls_of ip calls]"
      "map_of store'' ip = Some (e\<lparr>count := count e + calls_of ip calls\<rparr>)"
      "distinct (map fst store'')" by auto
    have n: "calls_of ip ((now, k) # calls) = calls_of ip calls" using False by (simp add: calls_of_def)
    show ?thesis
      using IH r rc False
      by (simp add: c n results_for_def)
  qed
qed

text \<open>
  C1, as the code has it. The window is closed at its end. Let the call of \<open>ip\<close> at
  \<open>t0\<close> find no entry for it once the stale entries are purged (\<open>store[ip]\<close> reads
  \<open>undefined\<close>), so that it opens a window. Of the calls of \<open>ip\<close> that arrive at most
  \<open>windowMs\<close> after \<open>t0\<close>, the instant \<open>t0 + windowMs\<close> included and whatever other
  keys call in between, the first ten (the opening one included) are allowed and every
  later one is refused; the first call of \<open>ip\<close> more than \<open>windowMs\<close> after \<open>t0\<close> is
  allowed and opens a window with count 1.
\<close>

theorem rateLimit_first_ten_allowed:
  assumes wf: "distinct (map fst store)"
    and opens: "lookup (purge t0 store) ip = Undefined"
    and within: "\<forall>(now, k) \<in> set calls. now - t0 \<le> windowMs"
    and after: "t1 - t0 > windowMs"
  shows "results_for ip ((t0, ip) # calls) (fst (rateLimit_calls ((t0, ip) # calls) store)) =
           map (\<lambda>j. j < 10) [0..<calls_of ip ((t0, ip) # calls)] \<and>
         snd (rateLimit t1 ip (snd (rateLimit_calls ((t0, ip) # calls) store))) = True \<and>
         map_of (fst (rateLimit t1 ip (snd (rateLimit_calls ((t0, ip) # calls) store)))) ip =
           Some \<lparr>count = 1, timestamp = t1\<rparr>"
proof -
  have ordinary: "ip \<notin> set Object_prototype_names"
    using opens by (auto simp: lookup_def split: option.splits if_splits)
  have gone: "map_of (purge t0 store) ip = None"
    using opens by (auto simp: lookup_def split: option.splits if_splits)
  have fresh: "case map_of store ip of None \<Rightarrow> True | Some e \<Rightarrow> t0 - timestamp e > windowMs"
    using gone map_of_purge[OF wf, of t0 ip] by (auto split: option.splits if_splits)
  let ?e = "\<lparr>count = 1, timestamp = t0\<rparr>"
  let ?s1 = "AList.update ip ?e (purge t0 store)"
  have first: "rateLimit t0 ip store = (?s1, True)"
    using rateLimit_fresh[OF ordinary wf fresh] .
  have d1: "distinct (map fst ?s1)" by (simp add: distinct_update distinct_purge wf)
  have m1: "map_of ?s1 ip = Some ?e" by (simp add: update_conv')
  have w1: "\<forall>(now, k) \<in> set calls. now - timestamp ?e \<le> windowMs" using within by simp
  obtain rs s2 where rc: "rateLimit_calls calls ?s1 = (rs, s2)" by (cases "rateLimit_calls calls ?s1")
  from within_window[OF ordinary d1 m1 w1] rc
  have res: "results_for ip calls rs = map (\<lambda>j. count ?e + j + 1 \<le> limit) [0..<calls_of ip calls]"
    and m2: "map_of s2 ip = Some (?e\<lparr>count := count ?e + calls_of ip calls\<rparr>)"
    and d2: "distinct (map fst s2)" by auto
  have n: "calls_of ip ((t0, ip) # calls) = Suc (calls_of ip calls)" by (simp add: calls_of_def)
  have all: "rateLimit_calls ((t0, ip) # calls) store = (True # rs, s2)" using first rc by simp
  have A: "results_for ip ((t0, ip) # calls) (True # rs) = map (\<lambda>j. j < 10) [0..<calls_of ip ((t0, ip) # calls)]"
  proof -
    have "results_for ip ((t0, ip) # calls) (True # rs) = True # results_for ip calls rs"
      by (simp add: results_for_def)
    also have "\<dots> = True # map (\<lambda>j. Suc j < 10) [0..<calls_of ip calls]"
      by (auto simp add: res limit_def)
    also have "\<dots> = map (\<lambda>j. j < 10) [0..<Suc (calls_of ip calls)]"
      by (simp only: upt_0_Suc_map) simp
    finally show ?thesis by (simp only: n)
  qed
  have stale: "case map_of s2 ip of None \<Rightarrow> True | Some e \<Rightarrow> t1 - timestamp e > windowMs"
    using m2 after by simp
  have B: "rateLimit t1 ip s2 = (AList.update ip \<lparr>count = 1, timestamp = t1\<rparr> (purge t1 s2), True)"
    using rateLimit_fresh[OF ordinary d2 stale] .
  show ?thesis unfolding all using A B by (simp add: update_conv')
qed

theorem rateLimit_first_ten_allowed_witness:
  "results_for ''203.0.113.7''
     [(1000, ''203.0.113.7''), (1001, ''203.0.113.7''), (1500, ''198.51.100.2''),
      (2000, ''203.0.113.7''), (2000, ''203.0.113.7''), (2500, ''203.0.113.7''),
      (3000, ''203.0.113.7''), (3500, ''203.0.113.7''), (4000, ''203.0.113.7''),
      (4500, ''203.0.113.7''), (5000, ''203.0.113.7''), (61000, ''203.0.113.7''),
      (61000, ''203.0.113.7'')]
     (fst (rateLimit_calls
       [(1000, ''203.0.113.7''), (1001, ''203.0.113.7''), (1500, ''198.51.100.2''),
        (2000, ''203.0.113.7''), (2000, ''203.0.113.7''), (2500, ''203.0.113.7''),
        (3000, ''203.0.113.7''), (3500, ''203.0.113.7''), (4000, ''203.0.113.7''),
        (4500, ''203.0.113.7''), (5000, ''203.0.113.7''), (61000, ''203.0.113.7''),
        (61000, ''203.0.113.7'')] []))
   = [True, True, True, True, True, True, True, True, True, True, False, False] \<and>
   snd (rateLimit 61001 ''203.0.113.7'' (snd (rateLimit_calls
       [(1000, ''203.0.113.7''), (1001, ''203.0.113.7''), (1500, ''198.51.100.2''),
        (2000, ''203.0.113.7''), (2000, ''203.0.113.7''), (2500, ''203.0.113.7''),
        (3000, ''203.0.113.7''), (3500, ''203.0.113.7''), (4000, ''203.0.113.7''),
        (4500, ''203.0.113.7''), (5000, ''203.0.113.7''), (61000, ''203.0.113.7''),
        (61000, ''203.0.113.7'')] []))) = True \<and>
   map_of (fst (rateLimit 61001 ''203.0.113.7'' (snd (rateLimit_calls
       [(1000, ''203.0.113.7''), (1001, ''203.0.113.7''), (1500, ''198.51.100.2''),
        (2000, ''203.0.113.7''), (2000, ''203.0.113.7''), (2500, ''203.0.113.7''),
        (3000, ''203.0.113.7''), (3500, ''203.0.113.7''), (4000, ''203.0.113.7''),
        (4500, ''203.0.113.7''), (5000, ''203.0.113.7''), (61000, ''203.0.113.7''),
        (61000, ''203.0.113.7'')] [])))) ''203.0.113.7'' =
     Some \<lparr>count = 1, timestamp = 61001\<rparr>"
proof -
  have d: "distinct (map fst ([] :: RateLimitStore))" by simp
  have f: "lookup (purge 1000 []) ''203.0.113.7'' = Undefined"
    by (simp add: lookup_def Object_prototype_names_def)
  have w: "\<forall>(now, k) \<in> set [(1001, ''203.0.113.7''), (1500, ''198.51.100.2''),
      (2000, ''203.0.113.7''), (2000, ''203.0.113.7''), (2500, ''203.0.113.7''),
      (3000, ''203.0.113.7''), (3500, ''203.0.113.7''), (4000, ''203.0.113.7''),
      (4500, ''203.0.113.7''), (5000, ''203.0.113.7''), (61000, ''203.0.113.7''),
      (61000, ''203.0.113.7'')]. now - 1000 \<le> windowMs" by (simp add: windowMs_def)
  have a: "61001 - 1000 > windowMs" by (simp add: windowMs_def)
  show ?thesis
    using rateLimit_first_ten_allowed[OF d f w a]
    by (simp add: calls_of_def upt_rec)
qed

text \<open>
  C1 as stated has a call issued once the 60,000 ms of the window have elapsed start a
  new window. After ten calls in the window opened at 0, the call at exactly 60,000 is
  counted in that window as its eleventh and refused; the call at 60,001 is the one
  that opens a new window.
\<close>

theorem rateLimit_window_end_counterexample:
  "(0::int) + windowMs = 60000 \<and>
   rateLimit_calls
     [(0, ''203.0.113.7''), (1, ''203.0.113.7''), (2, ''203.0.113.7''), (3, ''203.0.113.7''),
      (4, ''203.0.113.7''), (5, ''203.0.113.7''), (6, ''203.0.113.7''), (7, ''203.0.113.7''),
      (8, ''203.0.113.7''), (9, ''203.0.113.7''), (60000, ''203.0.113.7'')] [] =
     ([True, True, True, True, True, True, True, True, True, True, False],
      [(''203.0.113.7'', \<lparr>count = 11, timestamp = 0\<rparr>)]) \<and>
   rateLimit 60001 ''203.0.113.7'' [(''203.0.113.7'', \<lparr>count = 11, timestamp = 0\<rparr>)] =
     ([(''203.0.113.7'', \<lparr>count = 1, timestamp = 60001\<rparr>)], True)"
proof -
  have o: "''203.0.113.7'' \<notin> set Object_prototype_names"
    by (simp add: Object_prototype_names_def)
  show ?thesis by (simp add: rateLimit_def lookup_def o windowMs_def limit_def)
qed

text \<open>
  A key that names an inherited member is outside the theorems above: the read
  \<open>store[ip]\<close> finds the member, and the first call for \<open>constructor\<close> on the empty
  store is refused without a window being opened.
\<close>

lemma rateLimit_inherited_key_refused:
  "rateLimit_calls [(0, ''constructor'')] [] = ([False], [])"
  by (simp add: rateLimit_def lookup_def Object_prototype_names_def)

text \<open>
  C9, as the code has it. The window is the closed interval
  \<open>[windowStart, windowStart + windowMs]\<close>: after any calls made from the empty store by
  a clock that does not run backwards, the count of a key's window is the number of that
  key's calls observed in that interval; a call of the key at most \<open>windowMs\<close> after
  the start, the instant \<open>windowStart + windowMs\<close> included, adds one to the count and
  leaves the start; a call of the key later than that resets the count to 1 and the
  start to now; and a call of any other key leaves the window as it is when it has not
  elapsed and evicts it when it has.
\<close>

theorem rateLimit_window_closed_interval:
  assumes clock: "sorted (map fst calls)"
    and entry: "map_of (snd (rateLimit_calls calls [])) k = Some e"
  shows "count e =
           length (filter (\<lambda>(t, k'). k' = k \<and> timestamp e \<le> t \<and> t \<le> timestamp e + windowMs) calls) \<and>
         (\<forall>now. now - timestamp e \<le> windowMs \<longrightarrow>
            map_of (fst (rateLimit now k (snd (rateLimit_calls calls [])))) k =
              Some (e\<lparr>count := count e + 1\<rparr>)) \<and>
         (\<forall>now. now - timestamp e > windowMs \<longrightarrow>
            map_of (fst (rateLimit now k (snd (rateLimit_calls calls [])))) k =
              Some \<lparr>count = 1, timestamp = now\<rparr>) \<and>
         (\<forall>now ip. ip \<noteq> k \<longrightarrow>
            map_of (fst (rateLimit now ip (snd (rateLimit_calls calls [])))) k =
              (if now - timestamp e > windowMs then None else Some e))"
proof -
  let ?store = "snd (rateLimit_calls calls [])"
  have inv: "window_invariant calls ?store" using window_invariant_reachable[OF clock] .
  have d: "distinct (map fst ?store)" using inv by (simp add: window_invariant_def)
  have ord: "k \<notin> set Object_prototype_names"
    and cnt: "count e = length (filter (\<lambda>(t, k'). k' = k \<and> timestamp e \<le> t) calls)"
    and closed: "\<forall>(t, k') \<in> set calls. k' = k \<and> timestamp e \<le> t \<longrightarrow> t \<le> timestamp e + windowMs"
    using inv entry unfolding window_invariant_def by blast+
  have "filter (\<lambda>(t, k'). k' = k \<and> timestamp e \<le> t) calls =
        filter (\<lambda>(t, k'). k' = k \<and> timestamp e \<le> t \<and> t \<le> timestamp e + windowMs) calls"
    using closed by (intro filter_cong) auto
  then have A: "count e =
      length (filter (\<lambda>(t, k'). k' = k \<and> timestamp e \<le> t \<and> t \<le> timestamp e + windowMs) calls)"
    using cnt by simp
  have B: "map_of (fst (rateLimit now k ?store)) k = Some (e\<lparr>count := count e + 1\<rparr>)"
    if "now - timestamp e \<le> windowMs" for now
    using rateLimit_same[OF ord d entry that] by (simp add: update_conv')
  have C: "map_of (fst (rateLimit now k ?store)) k = Some \<lparr>count = 1, timestamp = now\<rparr>"
    if "now - timestamp e > windowMs" for now
  proof -
    have "case map_of ?store k of None \<Rightarrow> True | Some e \<Rightarrow> now - timestamp e > windowMs"
      using entry that by simp
    from rateLimit_fresh[OF ord d this] show ?thesis by (simp add: update_conv')
  qed
  have D: "map_of (fst (rateLimit now ip ?store)) k =
             (if now - timestamp e > windowMs then None else Some e)"
    if "ip \<noteq> k" for now ip
    using rateLimit_other[OF d that, of now] entry by (simp add: map_of_purge[OF d])
  show ?thesis using A B C D by blast
qed

theorem rateLimit_window_closed_interval_witness:
  "map_of (snd (rateLimit_calls [(0, ''203.0.113.7''), (10, ''198.51.100.2''), (60000, ''203.0.113.7'')] []))
      ''203.0.113.7'' = Some \<lparr>count = 2, timestamp = 0\<rparr> \<and>
   count \<lparr>count = 2, timestamp = 0\<rparr> =
     length (filter (\<lambda>(t, k'). k' = ''203.0.113.7'' \<and> 0 \<le> t \<and> t \<le> 0 + windowMs)
       [(0, ''203.0.113.7''), (10, ''198.51.100.2''), (60000::int, ''203.0.113.7'')]) \<and>
   map_of (fst (rateLimit 60001 ''203.0.113.7''
     (snd (rateLimit_calls [(0, ''203.0.113.7''), (10, ''198.51.100.2''), (60000, ''203.0.113.7'')] []))))
      ''203.0.113.7'' = Some \<lparr>count = 1, timestamp = 60001\<rparr> \<and>
   map_of (fst (rateLimit 60001 ''192.0.2.9''
     (snd (rateLimit_calls [(0, ''203.0.113.7''), (10, ''198.51.100.2''), (60000, ''203.0.113.7'')] []))))
      ''203.0.113.7'' = None"
proof -
  let ?calls = "[(0, ''203.0.113.7''), (10, ''198.51.100.2''), (60000::int, ''203.0.113.7'')]"
  have s: "sorted (map fst ?calls)" by simp
  have o: "''203.0.113.7'' \<notin> set Object_prototype_names" "''198.51.100.2'' \<notin> set Object_prototype_names"
    by (simp_all add: Object_prototype_names_def)
  have e: "map_of (snd (rateLimit_calls ?calls [])) ''203.0.113.7'' = Some \<lparr>count = 2, timestamp = 0\<rparr>"
    by (simp add: rateLimit_def lookup_def o windowMs_def limit_def)
  show ?thesis
    using rateLimit_window_closed_interval[OF s e] e
    by (simp add: windowMs_def)
qed

text \<open>
  C9 as stated takes the window to be half-open. A call at exactly
  \<open>windowStart + windowMs\<close> does not reset the window: it is counted in it.
\<close>

theorem rateLimit_boundary_counterexample:
  "(0::int) + windowMs = 60000 \<and>
   map_of (snd (rateLimit_calls [(0, ''203.0.113.7''), (60000, ''203.0.113.7'')] [])) ''203.0.113.7''
     = Some \<lparr>count = 2, timestamp = 0\<rparr> \<and>
   map_of (snd (rateLimit_calls [(0, ''203.0.113.7''), (60000, ''203.0.113.7'')] [])) ''203.0.113.7''
     \<noteq> Some \<lparr>count = 1, timestamp = 60000\<rparr>"
proof -
  have o: "''203.0.113.7'' \<notin> set Object_prototype_names"
    by (simp add: Object_prototype_names_def)
  show ?thesis by (simp add: rateLimit_def lookup_def o windowMs_def limit_def)
qed

section \<open>Properties of the session manager\<close>

lemma length_update_present:
  "map_of al k = Some v \<Longrightarrow> length (AList.update k v' al) = length al"
  by (induction al) auto

lemma keys_update_present:
  "map_of al k = Some v \<Longrightarrow> map fst (AList.update k v' al) = map fst al"
  by (induction al) auto

text \<open>
  C4. For every id, \<open>getSession\<close> returns a session, never \<open>undefined\<close>: when no
  session is stored under the id, the fresh session with that id, \<open>lastActive\<close> equal
  to now and no analysis, which is then stored under the id while every other entry
  stays as it was; when one is stored, that session, with the store unchanged.
\<close>

theorem getSession_never_fails:
  "(\<exists>session. fst (getSession now sessionId ss) = Some session) \<and>
   (map_of ss sessionId = None \<longrightarrow>
      fst (getSession now sessionId ss) =
        Some \<lparr>session_id = sessionId, lastActive = now, memeService = None, analysis = None\<rparr> \<and>
      map_of (snd (getSession now sessionId ss)) sessionId =
        Some \<lparr>session_id = sessionId, lastActive = now, memeService = None, analysis = None\<rparr> \<and>
      (\<forall>other. other \<noteq> sessionId \<longrightarrow>
         map_of (snd (getSession now sessionId ss)) other = map_of ss other)) \<and>
   (\<forall>s. map_of ss sessionId = Some s \<longrightarrow> getSession now sessionId ss = (Some s, ss))"
  by (auto simp: getSession_def Let_def update_conv' split: option.splits)

theorem getSession_never_fails_witness:
  "fst (getSession 1000 ''unknown-id'' []) =
     Some \<lparr>session_id = ''unknown-id'', lastActive = 1000, memeService = None, analysis = None\<rparr> \<and>
   map_of (snd (getSession 1000 ''unknown-id'' [])) ''unknown-id'' =
     Some \<lparr>session_id = ''unknown-id'', lastActive = 1000, memeService = None, analysis = None\<rparr> \<and>
   getSession 2000 ''unknown-id'' (snd (getSession 1000 ''unknown-id'' [])) =
     (Some \<lparr>session_id = ''unknown-id'', lastActive = 1000, memeService = None, analysis = None\<rparr>,
      snd (getSession 1000 ''unknown-id'' []))"
  using getSession_never_fails[of 1000 "''unknown-id''" "[]"]
    getSession_never_fails[of 2000 "''unknown-id''" "snd (getSession 1000 ''unknown-id'' [])"]
  by simp

text \<open>
  C7, as the code has it. Every write sets \<open>lastActive\<close> to now: \<open>createSession\<close>,
  \<open>getSession\<close> on an id that is not stored (it creates the session) and
  \<open>updateSession\<close> on an id that is stored. \<open>getSession\<close> on a stored id is a pure
  read: it returns the session and leaves it, \<open>lastActive\<close> included, and the store as
  they were.
\<close>

theorem lastActive_set_by_writes:
  "map_of (snd (createSession uuid now ss)) uuid =
     Some \<lparr>session_id = uuid, lastActive = now, memeService = None, analysis = None\<rparr> \<and>
   (map_of ss sessionId = None \<longrightarrow>
      (\<exists>s. map_of (snd (getSession now sessionId ss)) sessionId = Some s \<and> lastActive s = now)) \<and>
   (\<forall>s. map_of ss sessionId = Some s \<longrightarrow>
      (\<exists>s'. map_of (updateSession now sessionId data ss) sessionId = Some s' \<and>
            lastActive s' = now)) \<and>
   (\<forall>s. map_of ss sessionId = Some s \<longrightarrow>
      getSession now sessionId ss = (Some s, ss) \<and>
      map_of (snd (getSession now sessionId ss)) sessionId = Some s)"
  by (auto simp: createSession_def getSession_def updateSession_def spread_def Let_def update_conv')

theorem lastActive_set_by_writes_witness:
  "map_of (snd (createSession ''u1'' 1000 [])) ''u1'' =
     Some \<lparr>session_id = ''u1'', lastActive = 1000, memeService = None, analysis = None\<rparr> \<and>
   (\<exists>s. map_of (snd (getSession 2000 ''u2'' [])) ''u2'' = Some s \<and> lastActive s = 2000) \<and>
   (\<exists>s'. map_of (updateSession 3000 ''u1''
              \<lparr>patch_id = None, patch_lastActive = None, patch_memeService = None,
               patch_analysis = Some (Some JNull)\<rparr>
              [(''u1'', \<lparr>session_id = ''u1'', lastActive = 1000, memeService = None,
                        analysis = None\<rparr>)]) ''u1'' = Some s' \<and> lastActive s' = 3000) \<and>
   getSession 4000 ''u1''
     [(''u1'', \<lparr>session_id = ''u1'', lastActive = 1000, memeService = None, analysis = None\<rparr>)] =
     (Some \<lparr>session_id = ''u1'', lastActive = 1000, memeService = None, analysis = None\<rparr>,
      [(''u1'', \<lparr>session_id = ''u1'', lastActive = 1000, memeService = None, analysis = None\<rparr>)])"
  using lastActive_set_by_writes[where uuid = "''u1''" and now = 1000 and ss = "[]"]
    lastActive_set_by_writes[where sessionId = "''u2''" and now = 2000 and ss = "[]"]
    lastActive_set_by_writes[where sessionId = "''u1''" and now = 3000
      and ss = "[(''u1'', \<lparr>session_id = ''u1'', lastActive = 1000, memeService = None, analysis = None\<rparr>)]"
      and data = "\<lparr>patch_id = None, patch_lastActive = None, patch_memeService = None,
        patch_analysis = Some (Some JNull)\<rparr>"]
    lastActive_set_by_writes[where sessionId = "''u1''" and now = 4000
      and ss = "[(''u1'', \<lparr>session_id = ''u1'', lastActive = 1000, memeService = None, analysis = None\<rparr>)]"]
  by simp

text \<open>
  C7 as stated has every read refresh \<open>lastActive\<close>. A session last active at 0 and
  read at 5 is returned, and stays stored, with \<open>lastActive\<close> 0.
\<close>

theorem getSession_read_counterexample:
  "getSession 5 ''s'' [(''s'', \<lparr>session_id = ''s'', lastActive = 0, memeService = None, analysis = None\<rparr>)]
     = (Some \<lparr>session_id = ''s'', lastActive = 0, memeService = None, analysis = None\<rparr>,
        [(''s'', \<lparr>session_id = ''s'', lastActive = 0, memeService = None, analysis = None\<rparr>)]) \<and>
   lastActive \<lparr>session_id = ''s'', lastActive = 0, memeService = None, analysis = None\<rparr> \<noteq> 5"
  by (simp add: getSession_def)

text \<open>
  C8. \<open>updateSession\<close> on an id that is not stored returns the store unchanged. On a
  stored id the new session has \<open>lastActive\<close> equal to now and, for every other field,
  the patch's value when the patch has the field and the old value when it has not;
  every other entry is unchanged, and so are the keys, their order and the number of
  entries.
\<close>

theorem updateSession_shallow_merge:
  "(map_of ss sessionId = None \<longrightarrow> updateSession now sessionId data ss = ss) \<and>
   (\<forall>s. map_of ss sessionId = Some s \<longrightarrow>
      (\<exists>s'. map_of (updateSession now sessionId data ss) sessionId = Some s' \<and>
         lastActive s' = now \<and>
         session_id s' = (case patch_id data of None \<Rightarrow> session_id s | Some v \<Rightarrow> v) \<and>
         memeService s' = (case patch_memeService data of None \<Rightarrow> memeService s | Some v \<Rightarrow> v) \<and>
         analysis s' = (case patch_analysis data of None \<Rightarrow> analysis s | Some v \<Rightarrow> v)) \<and>
      (\<forall>other. other \<noteq> sessionId \<longrightarrow>
         map_of (updateSession now sessionId data ss) other = map_of ss other) \<and>
      map fst (updateSession now sessionId data ss) = map fst ss \<and>
      length (updateSession now sessionId data ss) = length ss)"
  by (auto simp: updateSession_def spread_def update_conv' length_update_present
      keys_update_present)

theorem updateSession_shallow_merge_witness:
  "updateSession 2000 ''missing''
     \<lparr>patch_id = None, patch_lastActive = None, patch_memeService = None,
      patch_analysis = Some (Some JNull)\<rparr>
     [(''u1'', \<lparr>session_id = ''u1'', lastActive = 1000, memeService = Some (JBool True),
               analysis = None\<rparr>)] =
     [(''u1'', \<lparr>session_id = ''u1'', lastActive = 1000, memeService = Some (JBool True),
               analysis = None\<rparr>)] \<and>
   (\<exists>s'. map_of (updateSession 2000 ''u1''
              \<lparr>patch_id = None, patch_lastActive = None, patch_memeService = None,
               patch_analysis = Some (Some JNull)\<rparr>
              [(''u1'', \<lparr>session_id = ''u1'', lastActive = 1000, memeService = Some (JBool True),
                        analysis = None\<rparr>)]) ''u1'' = Some s' \<and>
         lastActive s' = 2000 \<and> session_id s' = ''u1'' \<and>
         memeService s' = Some (JBool True) \<and> analysis s' = Some JNull) \<and>
   length (updateSession 2000 ''u1''
              \<lparr>patch_id = None, patch_lastActive = None, patch_memeService = None,
               patch_analysis = Some (Some JNull)\<rparr>
              [(''u1'', \<lparr>session_id = ''u1'', lastActive = 1000, memeService = Some (JBool True),
                        analysis = None\<rparr>)]) = 1"
  using updateSession_shallow_merge[where sessionId = "''missing''" and now = 2000
      and ss = "[(''u1'', \<lparr>session_id = ''u1'', lastActive = 1000, memeService = Some (JBool True),
               analysis = None\<rparr>)]"
      and data = "\<lparr>patch_id = None, patch_lastActive = None, patch_memeService = None,
        patch_analysis = Some (Some JNull)\<rparr>"]
    updateSession_shallow_merge[where sessionId = "''u1''" and now = 2000
      and ss = "[(''u1'', \<lparr>session_id = ''u1'', lastActive = 1000, memeService = Some (JBool True),
               analysis = None\<rparr>)]"
      and data = "\<lparr>patch_id = None, patch_lastActive = None, patch_memeService = None,
        patch_analysis = Some (Some JNull)\<rparr>"]
  by (simp del: map_of_eq_Some_iff)

section \<open>Properties of the image analysis endpoint\<close>

lemma getSession_Some: "\<exists>session. fst (getSession now sessionId ss) = Some session"
  by (simp add: getSession_def Let_def split: option.splits)

lemma getSession_present:
  "\<exists>s. map_of (snd (getSession now sessionId ss)) sessionId = Some s"
  by (auto simp: getSession_def Let_def update_conv' split: option.splits)

lemma POST_not_401: "status (fst (POST openai now now' req ss)) \<noteq> 401"
proof (cases req)
  case (Inl e)
  then show ?thesis by (simp add: POST_def json_response_def)
next
  case (Inr form)
  obtain session ss1 where g: "getSession now (the (form_sessionId form)) ss = (session, ss1)"
    by (cases "getSession now (the (form_sessionId form)) ss")
  then have "session \<noteq> None"
    using getSession_Some[of now "the (form_sessionId form)" ss] by auto
  then show ?thesis
    using Inr g
    by (auto simp: POST_def json_response_def Let_def
        split: option.splits completion.splits prod.splits entry.splits)
qed

text \<open>
  C10. \<open>getSession\<close> never returns \<open>undefined\<close>, so the endpoint never answers 401,
  whatever the request, the store and the vision model are. A request with a session
  id that is not empty, stored or not, a file and a name goes on to the vision model;
  when the model's answer parses, the response is 200 with the analysis, which is then
  stored in the session under that id.
\<close>

theorem analyze_accepts_every_session_id:
  "fst (getSession now sessionId ss) \<noteq> None \<and>
   status (fst (POST openai now now' req ss)) \<noteq> 401 \<and>
   (form_sessionId form = Some sessionId \<and> sessionId \<noteq> [] \<and>
    form_file form = Some (File f) \<and> form_memeName form = Some n \<and> n \<noteq> [] \<and>
    openai f n = Content (Some c) \<and> c \<noteq> [] \<and>
    JSON_parse c = Some a \<longrightarrow>
      fst (POST openai now now' (Inr form) ss) = json_response (SuccessBody a) 200 \<and>
      (\<exists>s. map_of (snd (POST openai now now' (Inr form) ss)) sessionId = Some s \<and>
           analysis s = Some a \<and> lastActive s = now'))"
proof -
  have A: "fst (getSession now sessionId ss) \<noteq> None"
    using getSession_Some[of now sessionId ss] by auto
  have C: "fst (POST openai now now' (Inr form) ss) = json_response (SuccessBody a) 200 \<and>
      (\<exists>s. map_of (snd (POST openai now now' (Inr form) ss)) sessionId = Some s \<and>
           analysis s = Some a \<and> lastActive s = now')"
    if h: "form_sessionId form = Some sessionId" "sessionId \<noteq> []"
      "form_file form = Some (File f)" "form_memeName form = Some n" "n \<noteq> []"
      "openai f n = Content (Some c)" "c \<noteq> []"
      "JSON_parse c = Some a"
  proof -
    obtain session ss1 where g: "getSession now sessionId ss = (session, ss1)"
      by (cases "getSession now sessionId ss")
    obtain s0 where s0: "session = Some s0" using A g by auto
    obtain s1 where s1: "map_of ss1 sessionId = Some s1"
      using getSession_present[of now sessionId ss] g by auto
    show ?thesis
      using h g s0 s1
      by (simp add: POST_def updateSession_def spread_def update_conv')
  qed
  show ?thesis using A POST_not_401[of openai now now' req ss] C by blast
qed

theorem analyze_accepts_every_session_id_witness:
  \<open>fst (getSession 1000 ''never-created'' []) \<noteq> None \<and>
   fst (POST (\<lambda>f n. Content (Some (str ''{"name":"Pepe"}''))) 1000 1001
          (Inr \<lparr>form_file = Some (File ()), form_memeName = Some (str ''Pepe''),
                form_sessionId = Some ''never-created''\<rparr>) []) =
     json_response (SuccessBody (JObject [(str ''name'', JString (str ''Pepe''))])) 200 \<and>
   status (fst (POST (\<lambda>f n. Content (Some (str ''{"name":"Pepe"}''))) 1000 1001
          (Inr \<lparr>form_file = Some (File ()), form_memeName = Some (str ''Pepe''),
                form_sessionId = Some ''never-created''\<rparr>) [])) = 200\<close>
proof -
  have p: \<open>JSON_parse (str ''{"name":"Pepe"}'') = Some (JObject [(str ''name'', JString (str ''Pepe''))])\<close>
    by (simp add: JSON_parse_def tokenize_def str_def lexBetween_def isDigit_def isWordChar_def
      escapeChar_def parseValue_def lexFinish_def)
  have n: "str ''Pepe'' \<noteq> []" \<open>str ''{"name":"Pepe"}'' \<noteq> []\<close> by (simp_all add: str_def)
  show ?thesis
    using analyze_accepts_every_session_id[where now = 1000 and now' = 1001
        and sessionId = "''never-created''" and ss = "[]"
        and openai = \<open>\<lambda>f n. Content (Some (str ''{"name":"Pepe"}''))\<close>
        and form = "\<lparr>form_file = Some (File ()), form_memeName = Some (str ''Pepe''),
                form_sessionId = Some ''never-created''\<rparr>"
        and f = "()" and n = "str ''Pepe''" and c = \<open>str ''{"name":"Pepe"}''\<close>
        and a = "JObject [(str ''name'', JString (str ''Pepe''))]"
        and req = "Inr \<lparr>form_file = Some (File ()), form_memeName = Some (str ''Pepe''),
                form_sessionId = Some ''never-created''\<rparr>"]
      p n
    by (simp add: json_response_def)
qed

section \<open>Properties of the conversation generator\<close>

lemma split_not_Nil [simp]: "split sep s \<noteq> []"
  by (induction s) (auto split: list.splits)

lemma split_append:
  "split sep (a @ b) = butlast (split sep a) @ split sep (last (split sep a) @ b)"
proof (induction a)
  case Nil
  then show ?case by simp
next
  case (Cons c cs)
  obtain l0 ls0 where s: "split sep cs = l0 # ls0" by (cases "split sep cs") auto
  show ?case
  proof (cases "c = sep")
    case True
    then show ?thesis using Cons by simp
  next
    case False
    show ?thesis
    proof (cases ls0)
      case Nil
      then show ?thesis using False Cons s by simp
    next
      case (Cons x xs)
      then show ?thesis using False Cons.IH s by simp
    qed
  qed
qed

lemma split_no_sep: "sep \<notin> set a \<Longrightarrow> split sep a = [a]"
  by (induction a) auto

lemma last_split_no_sep: "sep \<notin> set (last (split sep a))"
  by (induction a) (auto split: list.splits)

lemma split_line: "sep \<notin> set l \<Longrightarrow> split sep (l @ sep # rest) = l # split sep rest"
  by (induction l) auto

lemma last_split_terminated: "a = [] \<or> last a = sep \<Longrightarrow> last (split sep a) = []"
proof (cases "a = []")
  case True
  then show ?thesis by simp
next
  case False
  assume "a = [] \<or> last a = sep"
  then have a: "a = butlast a @ [sep]" using False by (metis append_butlast_last_id)
  have "last (split sep (butlast a @ [sep])) = []"
    by (simp add: split_append[of sep "butlast a" "[sep]"] split_line[of sep "last (split sep (butlast a))" "[]", simplified] last_split_no_sep)
  then show ?thesis using a by simp
qed

lemma processLines_append:
  "processLines svc (xs @ ys) = processLines svc xs @ processLines svc ys"
  by (induction xs) (auto split: option.splits)

lemma turnsOfText_append:
  "turnsOfText svc (a @ b) =
     turnsOfText svc a @ turnsOfText svc (last (split 0x0A a) @ b)"
  by (simp add: turnsOfText_def split_append[of _ a b] butlast_append processLines_append)

lemma turnsOfText_no_newline: "0x0A \<notin> set a \<Longrightarrow> turnsOfText svc a = []"
  by (simp add: turnsOfText_def split_no_sep)

lemma turnsOfText_terminated:
  "a = [] \<or> last a = 0x0A \<Longrightarrow> turnsOfText svc (a @ b) = turnsOfText svc a @ turnsOfText svc b"
  using last_split_terminated[of a "0x0A"] by (simp add: turnsOfText_append)

lemma turnsOfText_line:
  "0x0A \<notin> set l \<Longrightarrow>
   turnsOfText svc (l @ 0x0A # rest) = processLines svc [l] @ turnsOfText svc rest"
  by (simp add: turnsOfText_def split_line split: option.splits)

lemma readLoop_text:
  "0x0A \<notin> set buffer \<Longrightarrow>
   readLoop svc buffer chunks =
     turnsOfText svc (buffer @ concat (map TextDecoder_decode chunks))"
proof (induction chunks arbitrary: buffer)
  case Nil
  then show ?case by (simp add: turnsOfText_no_newline)
next
  case (Cons v rest)
  let ?t = "buffer @ TextDecoder_decode v"
  have "readLoop svc buffer (v # rest) =
          turnsOfText svc ?t @ readLoop svc (last (split 0x0A ?t)) rest"
    by (simp add: readChunk_def Let_def turnsOfText_def)
  also have "\<dots> = turnsOfText svc ?t @
          turnsOfText svc (last (split 0x0A ?t) @ concat (map TextDecoder_decode rest))"
    using Cons.IH[OF last_split_no_sep] by simp
  also have "\<dots> = turnsOfText svc (?t @ concat (map TextDecoder_decode rest))"
    by (simp only: turnsOfText_append[symmetric])
  finally show ?case by simp
qed

lemma utf8_decode_ascii: "\<forall>b \<in> set bs. b < 0x80 \<Longrightarrow> utf8_decode Idle bs = bs"
  by (induction bs) (auto simp: decodeStep_def leadByte_def)

lemma concat_utf16_ascii: "\<forall>b \<in> set bs. b < 0x80 \<Longrightarrow> concat (map utf16 bs) = bs"
  by (induction bs) (auto simp: utf16_def)

lemma TextDecoder_decode_ascii:
  "\<forall>b \<in> set bs. b < 0x80 \<Longrightarrow> TextDecoder_decode bs = bs"
proof -
  assume a: "\<forall>b \<in> set bs. b < 0x80"
  have "stripBOM bs = bs" using a by (cases bs) (auto simp: stripBOM_def)
  then show ?thesis
    by (simp only: TextDecoder_decode_def utf8_decode_ascii[OF a] concat_utf16_ascii[OF a])
qed

lemma readLoop_ascii:
  assumes "\<forall>chunk \<in> set chunks. \<forall>b \<in> set chunk. b < 0x80"
  shows "readLoop svc [] chunks = turnsOfText svc (concat chunks)"
proof -
  have "map TextDecoder_decode chunks = chunks"
    using assms by (simp add: map_idI TextDecoder_decode_ascii)
  then show ?thesis using readLoop_text[of "[]" svc chunks] by simp
qed

lemma readLoop_ascii_chunking:
  assumes "\<forall>b \<in> set (concat chunks). b < 0x80" "concat chunks' = concat chunks"
  shows "readLoop svc [] chunks' = readLoop svc [] chunks"
proof -
  have a: "\<forall>chunk \<in> set chunks. \<forall>b \<in> set chunk. b < 0x80" using assms(1) by auto
  have "\<forall>b \<in> set (concat chunks'). b < 0x80" using assms by simp
  then have b: "\<forall>chunk \<in> set chunks'. \<forall>b \<in> set chunk. b < 0x80" by auto
  show ?thesis using readLoop_ascii[OF a] readLoop_ascii[OF b] assms(2) by simp
qed

lemma readLoop_one: "readLoop svc [] [v] = turnsOfText svc (TextDecoder_decode v)"
  using readLoop_text[of "[]" svc "[v]"] by simp

lemma readLoop_two:
  "readLoop svc [] [v, w] = turnsOfText svc (TextDecoder_decode v @ TextDecoder_decode w)"
  using readLoop_text[of "[]" svc "[v, w]"] by simp

lemma turnsOfText_single_line:
  "0x0A \<notin> set l \<Longrightarrow> turnsOfText svc (l @ [0x0A]) = processLines svc [l]"
  using turnsOfText_line[of l svc "[]"] by (simp add: turnsOfText_def)

lemma generateConversation_yields:
  assumes "descripcionPersonaje svc \<noteq> None" "descripcionTexto svc \<noteq> []"
    and "fetch \<lparr>url = str ''/api/meme/chat'', req_topic = topic,
                req_description = descripcionTexto svc, req_memeName = memeName svc\<rparr> =
           Resolves (Some (chunks, ending))"
  shows "fst (generateConversation fetch svc topic requests) = (readLoop svc [] chunks, ending)"
  using assms by (auto simp add: generateConversation_def Let_def)

lemma JSON_parse_Pepe:
  \<open>JSON_parse (str '' {"message":"Pepe: to the moon"}'') =
     Some (JObject [(str ''message'', JString (str ''Pepe: to the moon''))])\<close>
  by (simp add: JSON_parse_def tokenize_def str_def lexBetween_def isDigit_def isWordChar_def
      escapeChar_def parseValue_def lexFinish_def)

lemma JSON_parse_Hacky:
  \<open>JSON_parse (str '' {"message":"Hacky: gm"}'') =
     Some (JObject [(str ''message'', JString (str ''Hacky: gm''))])\<close>
  by (simp add: JSON_parse_def tokenize_def str_def lexBetween_def isDigit_def isWordChar_def
      escapeChar_def parseValue_def lexFinish_def)

lemma JSON_parse_not_json: \<open>JSON_parse (str '' {not json'') = None\<close>
  by (simp add: JSON_parse_def tokenize_def str_def lexBetween_def isDigit_def isWordChar_def
      escapeChar_def parseValue_def lexFinish_def wordToken_def)

lemma memeName_pepe: "memeName pepe = str ''Pepe''"
  by (simp add: pepe_def initializeCharacter_def)

lemma pepe_analysed: "descripcionPersonaje pepe \<noteq> None" "descripcionTexto pepe \<noteq> []"
  by (simp_all add: pepe_def initializeCharacter_def convertToTextDescription_def str_def)

lemma processLine_Pepe:
  \<open>processLine pepe (str ''data: {"message":"Pepe: to the moon"}'') =
     Some \<lparr>speaker = str ''Pepe'', message = str ''to the moon'',
           turn_imageUrl = str ''blob:pepe'', isHacky = False\<rparr>\<close>
proof -
  let ?l = \<open>str ''data: {"message":"Pepe: to the moon"}''\<close>
  have s: "startsWith ?l (str ''data: '')" by (simp add: startsWith_def str_def)
  have p: \<open>JSON_parse (slice 5 ?l) = Some (JObject [(str ''message'', JString (str ''Pepe: to the moon''))])\<close>
    using JSON_parse_Pepe by (simp add: slice_def str_def)
  have h: "\<not> startsWith (str ''Pepe: to the moon'') (str ''Hacky:'')"
    by (simp add: startsWith_def str_def)
  have t: "trim (slice (Suc (length (str ''Pepe''))) (str ''Pepe: to the moon'')) = str ''to the moon''"
    by (simp add: trim_def slice_def str_def isWhiteSpace_def)
  have m: "str ''Pepe: to the moon'' \<noteq> []" by (simp add: str_def)
  have i: "imageUrl pepe = str ''blob:pepe''" by (simp add: pepe_def initializeCharacter_def)
  show ?thesis
    unfolding processLine_def
    by (simp add: s p get_message_def m h t i memeName_pepe)
qed

lemma processLine_Hacky_message:
  assumes "JSON_parse (slice 5 line) = Some (JObject [(str ''message'', JString (str ''Hacky: '' @ x))])"
    and "startsWith line (str ''data: '')" and "trim (0x20 # x) = x"
  shows "processLine svc line =
     Some \<lparr>speaker = str ''Hacky'', message = x,
           turn_imageUrl = str ''/images/hacky.jpeg'', isHacky = True\<rparr>"
proof -
  have h: "startsWith (str ''Hacky: '' @ x) (str ''Hacky:'')" by (simp add: startsWith_def str_def)
  have m: "str ''Hacky: '' \<noteq> []" by (simp add: str_def)
  have s: "slice 6 (str ''Hacky: '' @ x) = 0x20 # x" by (simp add: slice_def str_def)
  show ?thesis
    unfolding processLine_def
    by (simp add: assms get_message_def m h s)
qed

text \<open>
  The split of the specification: the line \<open>data: {"message":"Hacky: gm"}\<close> arriving
  in two chunks yields exactly one turn, of speaker Hacky and message gm.
\<close>

lemma readLoop_two_chunks:
  \<open>readLoop pepe [] [str ''data: {"mess'', str ''age":"Hacky: gm"}'' @ [0x0A]] =
     [\<lparr>speaker = str ''Hacky'', message = str ''gm'',
       turn_imageUrl = str ''/images/hacky.jpeg'', isHacky = True\<rparr>]\<close>
proof -
  let ?line = \<open>str ''data: {"message":"Hacky: gm"}''\<close>
  let ?chunks = \<open>[str ''data: {"mess'', str ''age":"Hacky: gm"}'' @ [0x0A]]\<close>
  have a: "\<forall>chunk \<in> set ?chunks. \<forall>b \<in> set chunk. b < 0x80" by (simp add: str_def)
  have c: "concat ?chunks = ?line @ [0x0A]" by (simp add: str_def)
  have n: "0x0A \<notin> set ?line" by (simp add: str_def)
  have s: "startsWith ?line (str ''data: '')" by (simp add: startsWith_def str_def)
  have p: "JSON_parse (slice 5 ?line) =
      Some (JObject [(str ''message'', JString (str ''Hacky: '' @ str ''gm''))])"
    using JSON_parse_Hacky by (simp add: slice_def str_def)
  have t: "trim (0x20 # str ''gm'') = str ''gm''" by (simp add: trim_def isWhiteSpace_def str_def)
  have "readLoop pepe [] ?chunks = processLines pepe [?line]"
    by (simp only: readLoop_ascii[OF a, of pepe] c turnsOfText_single_line[OF n])
  then show ?thesis
    by (simp only: processLines.simps processLine_Hacky_message[OF p s t] option.case)
qed

text \<open>
  C2. The turns depend only on the concatenation of the chunks, not on where the
  stream is cut. This holds of the decoded text (\<open>readLoop_text\<close>), and so of every
  stream of ASCII bytes (\<open>readLoop_ascii_chunking\<close>), but each chunk is decoded on its
  own: a cut inside a multi-byte character turns its pieces into U+FFFD. The bytes of
  the line \<open>data: {"message":"Hacky: \<dots>"}\<close> whose message is the one character
  U+00E9 (bytes C3 A9) yield that message when they arrive in one chunk, and two
  U+FFFD when the cut falls between C3 and A9.
\<close>

theorem readLoop_split_multibyte_character:
  \<open>concat [str ''data: {"message":"Hacky: '' @ [0xC3], [0xA9] @ str ''"}'' @ [0x0A]] =
     concat [str ''data: {"message":"Hacky: '' @ [0xC3, 0xA9] @ str ''"}'' @ [0x0A]] \<and>
   map message
     (readLoop pepe [] [str ''data: {"message":"Hacky: '' @ [0xC3, 0xA9] @ str ''"}'' @ [0x0A]]) =
     [[0xE9]] \<and>
   map message
     (readLoop pepe [] [str ''data: {"message":"Hacky: '' @ [0xC3], [0xA9] @ str ''"}'' @ [0x0A]]) =
     [[0xFFFD, 0xFFFD]]\<close>
proof -
  let ?pre = \<open>str ''data: {"message":"Hacky: ''\<close>
  let ?post = \<open>str ''"}''\<close>
  have d: "TextDecoder_decode (?pre @ [0xC3, 0xA9] @ ?post @ [0x0A]) = (?pre @ [0xE9] @ ?post) @ [0x0A]"
    by (simp add: TextDecoder_decode_def str_def decodeStep_def leadByte_def stripBOM_def utf16_def)
  have d1: "TextDecoder_decode (?pre @ [0xC3]) = ?pre @ [0xFFFD]"
    by (simp add: TextDecoder_decode_def str_def decodeStep_def leadByte_def stripBOM_def utf16_def)
  have d2: "TextDecoder_decode ([0xA9] @ ?post @ [0x0A]) = [0xFFFD] @ ?post @ [0x0A]"
    by (simp add: TextDecoder_decode_def str_def decodeStep_def leadByte_def stripBOM_def utf16_def)
  have d12: "(?pre @ [0xFFFD]) @ [0xFFFD] @ ?post @ [0x0A] = (?pre @ [0xFFFD, 0xFFFD] @ ?post) @ [0x0A]"
    by simp
  have n1: "0x0A \<notin> set (?pre @ [0xE9] @ ?post)" by (simp add: str_def)
  have n2: "0x0A \<notin> set (?pre @ [0xFFFD, 0xFFFD] @ ?post)" by (simp add: str_def)
  have s: "startsWith (?pre @ x @ ?post) (str ''data: '')" for x
    by (simp add: startsWith_def str_def)
  have p1: "JSON_parse (slice 5 (?pre @ [0xE9] @ ?post)) =
      Some (JObject [(str ''message'', JString (str ''Hacky: '' @ [0xE9]))])"
    by (simp add: slice_def JSON_parse_def tokenize_def str_def lexBetween_def isDigit_def
        isWordChar_def escapeChar_def parseValue_def lexFinish_def)
  have p2: "JSON_parse (slice 5 (?pre @ [0xFFFD, 0xFFFD] @ ?post)) =
      Some (JObject [(str ''message'', JString (str ''Hacky: '' @ [0xFFFD, 0xFFFD]))])"
    by (simp add: slice_def JSON_parse_def tokenize_def str_def lexBetween_def isDigit_def
        isWordChar_def escapeChar_def parseValue_def lexFinish_def)
  have t1: "trim (0x20 # [0xE9]) = [0xE9]" by (simp add: trim_def isWhiteSpace_def)
  have t2: "trim (0x20 # [0xFFFD, 0xFFFD]) = [0xFFFD, 0xFFFD]" by (simp add: trim_def isWhiteSpace_def)
  have A: "readLoop pepe [] [?pre @ [0xC3, 0xA9] @ ?post @ [0x0A]] =
             processLines pepe [?pre @ [0xE9] @ ?post]"
    by (simp only: readLoop_one d turnsOfText_single_line[OF n1])
  have B: "readLoop pepe [] [?pre @ [0xC3], [0xA9] @ ?post @ [0x0A]] =
             processLines pepe [?pre @ [0xFFFD, 0xFFFD] @ ?post]"
    by (simp only: readLoop_two d1 d2 d12 turnsOfText_single_line[OF n2])
  have q1: "processLines pepe [?pre @ [0xE9] @ ?post] =
      [\<lparr>speaker = str ''Hacky'', message = [0xE9],
        turn_imageUrl = str ''/images/hacky.jpeg'', isHacky = True\<rparr>]"
    by (simp only: processLines.simps processLine_Hacky_message[OF p1 s t1] option.case)
  have q2: "processLines pepe [?pre @ [0xFFFD, 0xFFFD] @ ?post] =
      [\<lparr>speaker = str ''Hacky'', message = [0xFFFD, 0xFFFD],
        turn_imageUrl = str ''/images/hacky.jpeg'', isHacky = True\<rparr>]"
    by (simp only: processLines.simps processLine_Hacky_message[OF p2 s t2] option.case)
  show ?thesis
    unfolding A B q1 q2 by simp
qed

text \<open>
  C3. A service whose \<open>descripcionPersonaje\<close> is \<open>null\<close> fails with the error
  "Must analyze image first" and makes no request: the requests made so far are
  unchanged and \<open>fetch\<close> is not consulted.
\<close>

theorem generateConversation_requires_analysis:
  "descripcionPersonaje svc = None \<Longrightarrow>
   generateConversation fetch svc topic requests =
     (([], Some (Error (str ''Must analyze image first''))), requests)"
  by (simp add: generateConversation_def)

theorem generateConversation_requires_analysis_witness:
  "descripcionPersonaje new_MemeService = None \<and>
   generateConversation (\<lambda>r. Resolves (Some ([], None))) new_MemeService (str ''bitcoin'') [] =
     (([], Some (Error (str ''Must analyze image first''))), [])"
proof -
  have h: "descripcionPersonaje new_MemeService = None" by (simp add: new_MemeService_def)
  show ?thesis using generateConversation_requires_analysis[OF h] h by simp
qed

text \<open>
  C5. A line with the \<open>data: \<close> prefix whose payload parses and carries a message
  that is a string and not empty yields a turn. When the message starts with
  \<open>Hacky:\<close> the speaker is Hacky and the text is the message without that marker,
  trimmed; otherwise the speaker is the character's name and the text is the message
  without its first (length of the name) + 1 code units, trimmed. The marker is tested
  first, whatever the name is.
\<close>

theorem processLine_speaker_attribution:
  assumes "startsWith line (str ''data: '')"
    and "JSON_parse (slice 5 line) = Some data"
    and "get_message data = Inr (Some (JString m))"
    and "m \<noteq> []"
  shows "\<exists>t. processLine svc line = Some t \<and>
     (startsWith m (str ''Hacky:'') \<longrightarrow>
        speaker t = str ''Hacky'' \<and> (\<exists>rest. m = str ''Hacky:'' @ rest \<and> message t = trim rest)) \<and>
     (\<not> startsWith m (str ''Hacky:'') \<longrightarrow>
        speaker t = memeName svc \<and> message t = trim (drop (length (memeName svc) + 1) m))"
proof -
  have l: "length (str ''Hacky:'') = 6" by (simp add: str_def)
  have "m = str ''Hacky:'' @ drop 6 m" if "startsWith m (str ''Hacky:'')"
    using that append_take_drop_id[of 6 m] unfolding startsWith_def l by simp
  then show ?thesis
    using assms by (auto simp: processLine_def Let_def slice_def)
qed

theorem processLine_speaker_attribution_witness:
  \<open>map (\<lambda>t. (speaker t, message t))
      (readLoop pepe [] [str ''data: {"message":"Pepe: to the moon"}'' @ [0x0A]]) =
     [(str ''Pepe'', str ''to the moon'')] \<and>
   map (\<lambda>t. (speaker t, message t))
      (readLoop pepe [] [str ''data: {"message":"Hacky: gm"}'' @ [0x0A]]) =
     [(str ''Hacky'', str ''gm'')]\<close>
proof -
  let ?l1 = \<open>str ''data: {"message":"Pepe: to the moon"}''\<close>
  let ?l2 = \<open>str ''data: {"message":"Hacky: gm"}''\<close>
  have a1: "\<forall>chunk \<in> set [?l1 @ [0x0A]]. \<forall>b \<in> set chunk. b < 0x80" by (simp add: str_def)
  have a2: "\<forall>chunk \<in> set [?l2 @ [0x0A]]. \<forall>b \<in> set chunk. b < 0x80" by (simp add: str_def)
  have n1: "0x0A \<notin> set ?l1" by (simp add: str_def)
  have n2: "0x0A \<notin> set ?l2" by (simp add: str_def)
  have r1: "readLoop pepe [] [?l1 @ [0x0A]] = processLines pepe [?l1]"
    using readLoop_ascii[OF a1, of pepe] turnsOfText_line[OF n1, of pepe "[]"]
    by (simp add: turnsOfText_def)
  have r2: "readLoop pepe [] [?l2 @ [0x0A]] = processLines pepe [?l2]"
    using readLoop_ascii[OF a2, of pepe] turnsOfText_line[OF n2, of pepe "[]"]
    by (simp add: turnsOfText_def)
  have s1: "startsWith ?l1 (str ''data: '')" by (simp add: startsWith_def str_def)
  have s2: "startsWith ?l2 (str ''data: '')" by (simp add: startsWith_def str_def)
  have p1: \<open>JSON_parse (slice 5 ?l1) = Some (JObject [(str ''message'', JString (str ''Pepe: to the moon''))])\<close>
    using JSON_parse_Pepe by (simp add: slice_def str_def)
  have p2: \<open>JSON_parse (slice 5 ?l2) = Some (JObject [(str ''message'', JString (str ''Hacky: gm''))])\<close>
    using JSON_parse_Hacky by (simp add: slice_def str_def)
  have g1: "get_message (JObject [(str ''message'', JString (str ''Pepe: to the moon''))]) =
      Inr (Some (JString (str ''Pepe: to the moon'')))" by (simp add: get_message_def)
  have g2: "get_message (JObject [(str ''message'', JString (str ''Hacky: gm''))]) =
      Inr (Some (JString (str ''Hacky: gm'')))" by (simp add: get_message_def)
  have m1: "str ''Pepe: to the moon'' \<noteq> []" by (simp add: str_def)
  have m2: "str ''Hacky: gm'' \<noteq> []" by (simp add: str_def)
  have h1: "\<not> startsWith (str ''Pepe: to the moon'') (str ''Hacky:'')"
    by (simp add: startsWith_def str_def)
  have h2: "startsWith (str ''Hacky: gm'') (str ''Hacky:'')"
    by (simp add: startsWith_def str_def)
  have t1: "trim (drop (length (str ''Pepe'') + 1) (str ''Pepe: to the moon'')) = str ''to the moon''"
    by (simp add: trim_def str_def isWhiteSpace_def)
  have t2: "\<And>rest. str ''Hacky: gm'' = str ''Hacky:'' @ rest \<Longrightarrow> trim rest = str ''gm''"
    by (simp add: trim_def str_def isWhiteSpace_def)
  from processLine_speaker_attribution[OF s1 p1 g1 m1, of pepe] h1
  obtain u1 where u1: "processLine pepe ?l1 = Some u1" "speaker u1 = str ''Pepe''"
    "message u1 = str ''to the moon''"
    using t1 by (auto simp: memeName_pepe)
  from processLine_speaker_attribution[OF s2 p2 g2 m2, of pepe] h2
  obtain u2 where u2: "processLine pepe ?l2 = Some u2" "speaker u2 = str ''Hacky''"
    "message u2 = str ''gm''"
    using t2 by auto
  show ?thesis unfolding r1 r2 by (simp add: u1 u2)
qed

text \<open>
  C6. A line with the \<open>data: \<close> prefix whose payload \<open>JSON.parse\<close> rejects yields
  nothing and ends nothing: the turns of the stream are those of the text before the
  line followed by those of the text after it, and the generator ends as the stream
  does, with no error when the stream ends with \<open>done\<close>.
\<close>

theorem malformed_frame_dropped:
  assumes prefix: "startsWith line (str ''data: '')"
    and malformed: "JSON_parse (slice 5 line) = None"
    and one_line: "0x0A \<notin> set line"
    and boundary: "before = [] \<or> last before = 0x0A"
    and stream: "concat (map TextDecoder_decode chunks) = before @ line @ [0x0A] @ after"
    and analysed: "descripcionPersonaje svc \<noteq> None" "descripcionTexto svc \<noteq> []"
    and body: "fetch \<lparr>url = str ''/api/meme/chat'', req_topic = topic,
                req_description = descripcionTexto svc, req_memeName = memeName svc\<rparr> =
           Resolves (Some (chunks, ending))"
  shows "processLine svc line = None \<and>
         readLoop svc [] chunks = turnsOfText svc before @ turnsOfText svc after \<and>
         fst (generateConversation fetch svc topic requests) =
           (turnsOfText svc before @ turnsOfText svc after, ending)"
proof -
  have A: "processLine svc line = None"
    using prefix malformed by (simp add: processLine_def)
  have "readLoop svc [] chunks = turnsOfText svc (before @ line @ [0x0A] @ after)"
    using readLoop_text[of "[]" svc chunks] stream by simp
  also have "\<dots> = turnsOfText svc before @ turnsOfText svc (line @ 0x0A # after)"
    using turnsOfText_terminated[OF boundary] by simp
  also have "\<dots> = turnsOfText svc before @ turnsOfText svc after"
    using turnsOfText_line[OF one_line, of svc after] A by simp
  finally have B: "readLoop svc [] chunks = turnsOfText svc before @ turnsOfText svc after" .
  show ?thesis
    using A B generateConversation_yields[where fetch = fetch and svc = svc and topic = topic
        and chunks = chunks and ending = ending and requests = requests, OF analysed body] by simp
qed

theorem malformed_frame_dropped_witness:
  \<open>processLine pepe (str ''data: {not json'') = None \<and>
   fst (generateConversation
          (\<lambda>r. Resolves (Some ([str ''data: {not json'' @ [0x0A] @
                                 str ''data: {"message":"Pepe: to the moon"}'' @ [0x0A]], None)))
          pepe (str ''bitcoin'') []) =
     ([\<lparr>speaker = str ''Pepe'', message = str ''to the moon'',
        turn_imageUrl = str ''blob:pepe'', isHacky = False\<rparr>], None)\<close>
proof -
  let ?bad = \<open>str ''data: {not json''\<close>
  let ?good = \<open>str ''data: {"message":"Pepe: to the moon"}''\<close>
  let ?chunks = "[?bad @ [0x0A] @ ?good @ [0x0A]]"
  have s: "startsWith ?bad (str ''data: '')" by (simp add: startsWith_def str_def)
  have p: "JSON_parse (slice 5 ?bad) = None"
    using JSON_parse_not_json by (simp add: slice_def str_def)
  have n: "0x0A \<notin> set ?bad" by (simp add: str_def)
  have ng: "0x0A \<notin> set ?good" by (simp add: str_def)
  have b: "([]::jsstring) = [] \<or> last ([]::jsstring) = 0x0A" by simp
  have a: "\<forall>b \<in> set (?bad @ [0x0A] @ ?good @ [0x0A]). b < 0x80" by (simp add: str_def)
  have d: "concat (map TextDecoder_decode ?chunks) = [] @ ?bad @ [0x0A] @ (?good @ [0x0A])"
    using TextDecoder_decode_ascii[OF a] by simp
  have f: "(\<lambda>r. Resolves (Some (?chunks, None)))
             \<lparr>url = str ''/api/meme/chat'', req_topic = str ''bitcoin'',
              req_description = descripcionTexto pepe, req_memeName = memeName pepe\<rparr> =
           Resolves (Some (?chunks, None))" by simp
  have after: "turnsOfText pepe (?good @ [0x0A]) =
      [\<lparr>speaker = str ''Pepe'', message = str ''to the moon'',
        turn_imageUrl = str ''blob:pepe'', isHacky = False\<rparr>]"
    using turnsOfText_line[OF ng, of pepe "[]"] processLine_Pepe
    by (simp add: turnsOfText_def)
  have e: "turnsOfText pepe [] = []" by (simp add: turnsOfText_def)
  show ?thesis
    using malformed_frame_dropped[where fetch = "\<lambda>r. Resolves (Some (?chunks, None))"
        and requests = "[]", OF s p n b d pepe_analysed f]
    unfolding after e by simp
qed

end
